theory Spec2Isabelle
  imports Complex_Main "HOL-Library.Word"
begin

section \<open>Numbers and arrays\<close>

text \<open>
  The program computes on NumPy arrays and TensorFlow tensors of floating-point
  numbers. An element is modelled as a value of \<open>fl\<close>: a finite number, one of the two
  infinities, or NaN. Arithmetic on finite numbers is exact (rounding and overflow are
  not modelled); on the special values it follows IEEE 754, so that \<open>0 / 0\<close> and
  \<open>inf - inf\<close> are NaN and every comparison with NaN is false.
\<close>

datatype fl = Fin real | PInf | NInf | NaN

fun fl_neg :: "fl \<Rightarrow> fl" where
  "fl_neg (Fin a) = Fin (- a)"
| "fl_neg PInf = NInf"
| "fl_neg NInf = PInf"
| "fl_neg NaN = NaN"

fun fl_add :: "fl \<Rightarrow> fl \<Rightarrow> fl" where
  "fl_add (Fin a) (Fin b) = Fin (a + b)"
| "fl_add NaN _ = NaN"
| "fl_add _ NaN = NaN"
| "fl_add PInf NInf = NaN"
| "fl_add NInf PInf = NaN"
| "fl_add PInf _ = PInf"
| "fl_add _ PInf = PInf"
| "fl_add NInf _ = NInf"
| "fl_add _ NInf = NInf"

definition fl_sub :: "fl \<Rightarrow> fl \<Rightarrow> fl" where
  "fl_sub a b = fl_add a (fl_neg b)"

text \<open>The sign of a value that is not NaN: \<open>-1\<close>, \<open>0\<close> or \<open>1\<close>.\<close>

fun fl_sign :: "fl \<Rightarrow> int" where
  "fl_sign (Fin a) = (if a = 0 then 0 else if 0 < a then 1 else - 1)"
| "fl_sign PInf = 1"
| "fl_sign NInf = - 1"
| "fl_sign NaN = 0"

fun fl_mul :: "fl \<Rightarrow> fl \<Rightarrow> fl" where
  "fl_mul (Fin a) (Fin b) = Fin (a * b)"
| "fl_mul NaN _ = NaN"
| "fl_mul _ NaN = NaN"
| "fl_mul a b =
     (if fl_sign a * fl_sign b = 0 then NaN
      else if 0 < fl_sign a * fl_sign b then PInf else NInf)"

definition fl_square :: "fl \<Rightarrow> fl" where
  "fl_square a = fl_mul a a"

text \<open>Division by an element count, which is never negative.\<close>

fun fl_div_count :: "fl \<Rightarrow> nat \<Rightarrow> fl" where
  "fl_div_count (Fin a) n =
     (if n = 0 then (if a = 0 then NaN else if 0 < a then PInf else NInf)
      else Fin (a / real n))"
| "fl_div_count PInf n = PInf"
| "fl_div_count NInf n = NInf"
| "fl_div_count NaN n = NaN"

fun fl_less :: "fl \<Rightarrow> fl \<Rightarrow> bool" where
  "fl_less (Fin a) (Fin b) = (a < b)"
| "fl_less (Fin a) PInf = True"
| "fl_less NInf (Fin b) = True"
| "fl_less NInf PInf = True"
| "fl_less _ _ = False"

fun fl_le :: "fl \<Rightarrow> fl \<Rightarrow> bool" where
  "fl_le (Fin a) (Fin b) = (a \<le> b)"
| "fl_le (Fin a) PInf = True"
| "fl_le NInf (Fin b) = True"
| "fl_le NInf PInf = True"
| "fl_le PInf PInf = True"
| "fl_le NInf NInf = True"
| "fl_le _ _ = False"

fun is_finite :: "fl \<Rightarrow> bool" where
  "is_finite (Fin a) = True"
| "is_finite _ = False"

text \<open>
  Clipping as \<open>np.clip\<close> and \<open>tf.clip_by_value\<close> do it: a value below the lower
  bound becomes the bound, a value above the upper bound becomes the bound, every
  other value (NaN among them) is kept.
\<close>

definition fl_clip :: "fl \<Rightarrow> fl \<Rightarrow> fl \<Rightarrow> fl" where
  "fl_clip lo hi v = (if fl_less v lo then lo else if fl_less hi v then hi else v)"

text \<open>
  The cast \<open>astype('uint8')\<close> truncates towards zero. The program casts only values
  already clipped to \<open>[0, 255]\<close>; what NumPy does with other values depends on the
  platform, and is fixed here as reduction modulo 256 and as 0 for a value that is not
  finite.
\<close>

fun astype_uint8 :: "fl \<Rightarrow> fl" where
  "astype_uint8 (Fin a) =
     Fin (of_int ((if 0 \<le> a then \<lfloor>a\<rfloor> else \<lceil>a\<rceil>) mod 256))"
| "astype_uint8 _ = Fin 0"

definition fl_sum :: "fl list \<Rightarrow> fl" where
  "fl_sum xs = foldl fl_add (Fin 0) xs"

datatype dtype = Float32 | Float64 | UInt8

text \<open>
  An array has a shape, an element type and a value at every index; an index is the
  list of its coordinates. Only the values at the indices within the shape belong to
  the array.
\<close>

record ndarray =
  shape :: "nat list"
  dtype :: dtype
  elems :: "nat list \<Rightarrow> fl"

definition valid_index :: "nat list \<Rightarrow> nat list \<Rightarrow> bool" where
  "valid_index sh idx = list_all2 (\<lambda>i d. i < d) idx sh"

text \<open>All indices of a shape, in row-major order.\<close>

fun indices :: "nat list \<Rightarrow> nat list list" where
  "indices [] = [[]]"
| "indices (d # ds) = concat (map (\<lambda>i. map ((#) i) (indices ds)) [0..<d])"

definition nd_eq :: "ndarray \<Rightarrow> ndarray \<Rightarrow> bool" where
  "nd_eq a b = (shape a = shape b \<and> list_all (\<lambda>idx. elems a idx = elems b idx) (indices (shape a)))"

datatype error =
    IOError
  | ZeroDivisionError
  | ValueError
  | AssertionError
  | IndexError
  | InvalidArgumentError

section \<open>Postprocessing\<close>

text \<open>\<open>np.squeeze(x, 0)\<close> removes the first axis, which must have length one.\<close>

definition squeeze0 :: "ndarray \<Rightarrow> error + ndarray" where
  "squeeze0 x =
     (case shape x of
        [] \<Rightarrow> Inl ValueError
      | d # ds \<Rightarrow>
          if d = 1 then Inr (x\<lparr>shape := ds, elems := (\<lambda>idx. elems x (0 # idx))\<rparr>)
          else Inl ValueError)"

text \<open>\<open>x[:, :, c] += m\<close> on an array of three axes; the channel must exist.\<close>

definition add_channel :: "nat \<Rightarrow> real \<Rightarrow> ndarray \<Rightarrow> error + ndarray" where
  "add_channel c m x =
     (if c < shape x ! 2
      then Inr (x\<lparr>elems := (\<lambda>idx. if idx ! 2 = c then fl_add (elems x idx) (Fin m) else elems x idx)\<rparr>)
      else Inl IndexError)"

text \<open>\<open>x[:, :, ::-1]\<close> on an array of three axes.\<close>

definition reverse_channels :: "ndarray \<Rightarrow> ndarray" where
  "reverse_channels x =
     x\<lparr>elems := (\<lambda>idx. elems x [idx ! 0, idx ! 1, shape x ! 2 - 1 - idx ! 2])\<rparr>"

definition clip_to_uint8 :: "ndarray \<Rightarrow> ndarray" where
  "clip_to_uint8 x =
     x\<lparr>dtype := UInt8, elems := (\<lambda>idx. astype_uint8 (fl_clip (Fin 0) (Fin 255) (elems x idx)))\<rparr>"

text \<open>
  \<open>_deprocess_img\<close>. The assertion comes before the \<open>raise\<close>, so an array that does
  not have three axes after the removal of the batch axis ends in the assertion's
  error.
\<close>

definition deprocess_img :: "ndarray \<Rightarrow> error + ndarray" where
  "deprocess_img processed_img =
     (case (if length (shape processed_img) = 4 then squeeze0 processed_img else Inr processed_img) of
        Inl e \<Rightarrow> Inl e
      | Inr x \<Rightarrow>
          if length (shape x) \<noteq> 3 then Inl AssertionError
          else
            (case add_channel 0 103.939 x of
               Inl e \<Rightarrow> Inl e
             | Inr x0 \<Rightarrow>
                 (case add_channel 1 116.779 x0 of
                    Inl e \<Rightarrow> Inl e
                  | Inr x1 \<Rightarrow>
                      (case add_channel 2 123.68 x1 of
                         Inl e \<Rightarrow> Inl e
                       | Inr x2 \<Rightarrow> Inr (clip_to_uint8 (reverse_channels x2))))))"

section \<open>Loading and preprocessing\<close>

text \<open>
  A PIL image in mode RGB: its size and the 8-bit value of every channel
  (0 red, 1 green, 2 blue) of the pixel in column \<open>x\<close> and row \<open>y\<close>.
\<close>

record image =
  width :: nat
  height :: nat
  pixel :: "nat \<Rightarrow> nat \<Rightarrow> nat \<Rightarrow> 8 word"

text \<open>
  What the program takes from its surroundings: the files that hold an image, and the
  numbers computed by the libraries it calls (the resampling filter of PIL, the layers
  of the pretrained network, the gradient of the recorded loss and the update rule of
  the optimizer, whose state has type \<open>'o\<close>). The shapes of what the libraries return
  are fixed by the model below, only the numbers are taken from here.
\<close>

record 'o env =
  files :: "string \<Rightarrow> image option"
  resample :: "image \<Rightarrow> nat \<Rightarrow> nat \<Rightarrow> nat \<Rightarrow> nat \<Rightarrow> nat \<Rightarrow> 8 word"
  layer_hw :: "string \<Rightarrow> nat \<Rightarrow> nat \<Rightarrow> nat \<times> nat"
  layer_channels :: "string \<Rightarrow> nat"
  layer_vals :: "string \<Rightarrow> ndarray \<Rightarrow> nat list \<Rightarrow> fl"
  grad_vals :: "fl \<times> fl \<Rightarrow> ndarray list \<Rightarrow> ndarray list \<Rightarrow> ndarray \<Rightarrow> nat list \<Rightarrow> fl"
  adam_init :: 'o
  adam_step :: "'o \<Rightarrow> ndarray \<Rightarrow> ndarray \<Rightarrow> 'o \<times> (nat list \<Rightarrow> fl)"

text \<open>The object built by \<open>__init__\<close>.\<close>

record image_converter =
  content_path :: string
  style_path :: string
  iteration :: int
  cur_iter :: int
  max_dim :: int
  content_layers :: "string list"
  style_layers :: "string list"
  num_content_layers :: nat
  num_style_layers :: nat

definition ImageConverter :: "string \<Rightarrow> string \<Rightarrow> int \<Rightarrow> int \<Rightarrow> image_converter" where
  "ImageConverter cp sp iter md =
     (let cl = [''block5_conv2''];
          sl = [''block1_conv1'', ''block2_conv1'', ''block3_conv1'', ''block4_conv1'',
                ''block5_conv1'']
      in \<lparr>content_path = cp, style_path = sp, iteration = iter, cur_iter = 0, max_dim = md,
          content_layers = cl, style_layers = sl,
          num_content_layers = length cl, num_style_layers = length sl\<rparr>)"

text \<open>Python's \<open>round\<close>: to the nearest integer, a tie to the even one.\<close>

definition py_round :: "real \<Rightarrow> int" where
  "py_round x =
     (let f = \<lfloor>x\<rfloor>; d = x - of_int f
      in if d < 1 / 2 then f else if 1 / 2 < d then f + 1 else if even f then f else f + 1)"

text \<open>
  \<open>Image.resize\<close>: PIL refuses a size with a side below one, returns a copy of the
  image when the size does not change, and otherwise an image of the requested size
  whose pixels the filter computes.
\<close>

definition resize :: "'o env \<Rightarrow> image \<Rightarrow> int \<times> int \<Rightarrow> error + image" where
  "resize b img sz =
     (if fst sz < 1 \<or> snd sz < 1 then Inl ValueError
      else if sz = (int (width img), int (height img)) then Inr img
      else Inr \<lparr>width = nat (fst sz), height = nat (snd sz),
                pixel = resample b img (nat (fst sz)) (nat (snd sz))\<rparr>)"

text \<open>\<open>img_to_array\<close>: rows first, then columns, then channels.\<close>

definition pixel_value :: "8 word \<Rightarrow> fl" where
  "pixel_value p = Fin (real (unat p))"

definition img_to_array :: "image \<Rightarrow> ndarray" where
  "img_to_array img =
     \<lparr>shape = [height img, width img, 3], dtype = Float32,
      elems = (\<lambda>idx. pixel_value (pixel img (idx ! 1) (idx ! 0) (idx ! 2)))\<rparr>"

definition expand_dims0 :: "ndarray \<Rightarrow> ndarray" where
  "expand_dims0 x = x\<lparr>shape := 1 # shape x, elems := (\<lambda>idx. elems x (tl idx))\<rparr>"

definition norm_means :: "real list" where
  "norm_means = [103.939, 116.779, 123.68]"

text \<open>
  \<open>vgg19.preprocess_input\<close> on a NumPy array: the last axis is reversed (RGB to BGR)
  and the three means are subtracted from its first three entries.
\<close>

definition preprocess_input :: "ndarray \<Rightarrow> error + ndarray" where
  "preprocess_input x =
     (if shape x = [] \<or> last (shape x) < 3 then Inl IndexError
      else Inr (x\<lparr>elems := (\<lambda>idx.
             let c = last idx;
                 v = elems x (butlast idx @ [last (shape x) - 1 - c])
             in if c < 3 then fl_sub v (Fin (norm_means ! c)) else v)\<rparr>))"

text \<open>
  \<open>_load_and_process_img\<close>. The second component of the result is the list of the
  paths opened so far, the opened path added at its end.
\<close>

definition load_and_process_img ::
  "'o env \<Rightarrow> image_converter \<Rightarrow> string \<Rightarrow> string list \<Rightarrow> (error + ndarray) \<times> string list" where
  "load_and_process_img b self img_path opened =
     (case files b img_path of
        None \<Rightarrow> (Inl IOError, opened)
      | Some img \<Rightarrow>
          (let long = max (width img) (height img) in
           if long = 0 then Inl ZeroDivisionError
           else
             (let scale = real_of_int (max_dim self) / real long in
              case resize b img (py_round (real (width img) * scale),
                                 py_round (real (height img) * scale)) of
                Inl e \<Rightarrow> Inl e
              | Inr img' \<Rightarrow> preprocess_input (expand_dims0 (img_to_array img'))),
           opened @ [img_path]))"

section \<open>The network\<close>

text \<open>
  The output of one layer of the pretrained network for a batch of images: the batch
  axis is kept, height and width depend on the layer and on the height and width of the
  input, the number of channels depends on the layer only.
\<close>

definition layer_output :: "'o env \<Rightarrow> string \<Rightarrow> ndarray \<Rightarrow> ndarray" where
  "layer_output b name x =
     \<lparr>shape = [shape x ! 0, fst (layer_hw b name (shape x ! 1) (shape x ! 2)),
               snd (layer_hw b name (shape x ! 1) (shape x ! 2)), layer_channels b name],
      dtype = Float32, elems = layer_vals b name x\<rparr>"

text \<open>
  \<open>_get_model\<close>: the model returns the outputs of the style layers, then those of the
  content layers. The network takes batches of images of three channels.
\<close>

definition get_model :: "'o env \<Rightarrow> image_converter \<Rightarrow> ndarray \<Rightarrow> error + ndarray list" where
  "get_model b self x =
     (let style_outputs = map (\<lambda>name. layer_output b name x) (style_layers self);
          content_outputs = map (\<lambda>name. layer_output b name x) (content_layers self);
          model_outputs = style_outputs @ content_outputs
      in if length (shape x) = 4 \<and> shape x ! 3 = 3 then Inr model_outputs
         else Inl InvalidArgumentError)"

section \<open>Losses\<close>

text \<open>
  Broadcasting of two shapes, aligned at their last axes: two lengths agree when they
  are equal or one of them is one.
\<close>

fun bshape_rev :: "nat list \<Rightarrow> nat list \<Rightarrow> nat list option" where
  "bshape_rev [] ys = Some ys"
| "bshape_rev xs [] = Some xs"
| "bshape_rev (x # xs) (y # ys) =
     (if x = y \<or> y = 1 then map_option ((#) x) (bshape_rev xs ys)
      else if x = 1 then map_option ((#) y) (bshape_rev xs ys)
      else None)"

definition broadcast_shapes :: "nat list \<Rightarrow> nat list \<Rightarrow> nat list option" where
  "broadcast_shapes xs ys = map_option rev (bshape_rev (rev xs) (rev ys))"

text \<open>The index into an operand of shape \<open>sh\<close> that an index of the broadcast result reads.\<close>

definition bidx :: "nat list \<Rightarrow> nat list \<Rightarrow> nat list" where
  "bidx sh idx = map2 (\<lambda>d i. if d = 1 then 0 else i) sh (drop (length idx - length sh) idx)"

definition tf_sub :: "ndarray \<Rightarrow> ndarray \<Rightarrow> error + ndarray" where
  "tf_sub x y =
     (case broadcast_shapes (shape x) (shape y) of
        None \<Rightarrow> Inl InvalidArgumentError
      | Some sh \<Rightarrow>
          Inr \<lparr>shape = sh, dtype = Float32,
               elems = (\<lambda>idx. fl_sub (elems x (bidx (shape x) idx)) (elems y (bidx (shape y) idx)))\<rparr>)"

definition tf_square :: "ndarray \<Rightarrow> ndarray" where
  "tf_square x = x\<lparr>elems := (\<lambda>idx. fl_square (elems x idx))\<rparr>"

definition reduce_mean :: "ndarray \<Rightarrow> fl" where
  "reduce_mean x = fl_div_count (fl_sum (map (elems x) (indices (shape x)))) (prod_list (shape x))"

text \<open>\<open>t[0]\<close> on a tensor.\<close>

definition index0 :: "ndarray \<Rightarrow> error + ndarray" where
  "index0 x =
     (case shape x of
        [] \<Rightarrow> Inl InvalidArgumentError
      | d # ds \<Rightarrow>
          if 0 < d then Inr (x\<lparr>shape := ds, elems := (\<lambda>idx. elems x (0 # idx))\<rparr>)
          else Inl InvalidArgumentError)"

definition content_loss :: "ndarray \<Rightarrow> ndarray \<Rightarrow> error + fl" where
  "content_loss base_content target =
     (case tf_sub base_content target of
        Inl e \<Rightarrow> Inl e
      | Inr d \<Rightarrow> Inr (reduce_mean (tf_square d)))"

text \<open>
  \<open>gram_matrix\<close>. The tensor is reshaped to rows of \<open>channels\<close> entries, one row for
  every index of the axes before the last; \<open>n\<close> is the number of rows. A tensor without
  axes has no last axis, and a tensor with no channels cannot be reshaped.
\<close>

definition gram_matrix :: "ndarray \<Rightarrow> error + ndarray" where
  "gram_matrix input_tensor =
     (if shape input_tensor = [] then Inl IndexError
      else
        (let channels = last (shape input_tensor);
             rows = indices (butlast (shape input_tensor));
             n = prod_list (butlast (shape input_tensor))
         in if channels = 0 then Inl InvalidArgumentError
            else Inr \<lparr>shape = [channels, channels], dtype = Float32,
                      elems = (\<lambda>idx.
                        fl_div_count
                          (fl_sum (map (\<lambda>r. fl_mul (elems input_tensor (r @ [idx ! 0]))
                                                    (elems input_tensor (r @ [idx ! 1]))) rows))
                          n)\<rparr>))"

definition style_loss :: "ndarray \<Rightarrow> ndarray \<Rightarrow> error + fl" where
  "style_loss base_style gram_target =
     (case gram_matrix base_style of
        Inl e \<Rightarrow> Inl e
      | Inr gram_style \<Rightarrow>
          (case tf_sub gram_style gram_target of
             Inl e \<Rightarrow> Inl e
           | Inr d \<Rightarrow> Inr (reduce_mean (tf_square d))))"

text \<open>The two loops of \<open>compute_loss\<close> over the zipped targets and outputs.\<close>

fun style_loop :: "fl \<Rightarrow> fl \<Rightarrow> (ndarray \<times> ndarray) list \<Rightarrow> error + fl" where
  "style_loop weight_per_style_layer style_score [] = Inr style_score"
| "style_loop weight_per_style_layer style_score ((target_style, comb_style) # rest) =
     (case index0 comb_style of
        Inl e \<Rightarrow> Inl e
      | Inr c \<Rightarrow>
          (case style_loss c target_style of
             Inl e \<Rightarrow> Inl e
           | Inr l \<Rightarrow>
               style_loop weight_per_style_layer
                 (fl_add style_score (fl_mul weight_per_style_layer l)) rest))"

fun content_loop :: "fl \<Rightarrow> fl \<Rightarrow> (ndarray \<times> ndarray) list \<Rightarrow> error + fl" where
  "content_loop weight_per_content_layer content_score [] = Inr content_score"
| "content_loop weight_per_content_layer content_score ((target_content, comb_content) # rest) =
     (case index0 comb_content of
        Inl e \<Rightarrow> Inl e
      | Inr c \<Rightarrow>
          (case content_loss c target_content of
             Inl e \<Rightarrow> Inl e
           | Inr l \<Rightarrow>
               content_loop weight_per_content_layer
                 (fl_add content_score (fl_mul weight_per_content_layer l)) rest))"

text \<open>
  \<open>compute_loss\<close>. The result is the triple of the total loss, the style score and the
  content score.
\<close>

definition compute_loss ::
  "image_converter \<Rightarrow> (ndarray \<Rightarrow> error + ndarray list) \<Rightarrow> fl \<times> fl \<Rightarrow> ndarray \<Rightarrow>
   ndarray list \<Rightarrow> ndarray list \<Rightarrow> error + (fl \<times> fl \<times> fl)" where
  "compute_loss self model loss_weights init_image gram_style_features content_features =
     (let style_weight = fst loss_weights; content_weight = snd loss_weights in
      case model init_image of
        Inl e \<Rightarrow> Inl e
      | Inr model_outputs \<Rightarrow>
          (let style_output_features = take (num_style_layers self) model_outputs;
               content_output_features = drop (num_style_layers self) model_outputs
           in if num_style_layers self = 0 then Inl ZeroDivisionError
              else
                (case style_loop (Fin (1 / real (num_style_layers self))) (Fin 0)
                        (zip gram_style_features style_output_features) of
                   Inl e \<Rightarrow> Inl e
                 | Inr style_score \<Rightarrow>
                     if num_content_layers self = 0 then Inl ZeroDivisionError
                     else
                       (case content_loop (Fin (1 / real (num_content_layers self))) (Fin 0)
                               (zip content_features content_output_features) of
                          Inl e \<Rightarrow> Inl e
                        | Inr content_score \<Rightarrow>
                            (let style_score' = fl_mul style_score style_weight;
                                 content_score' = fl_mul content_score content_weight;
                                 loss = fl_add style_score' content_score'
                             in Inr (loss, style_score', content_score'))))))"

section \<open>The style loss in float32\<close>

text \<open>
  The properties of a run proved below do not depend on how the losses are rounded, and
  the run is modelled with exact arithmetic on finite numbers. Whether a style loss is
  exactly zero does depend on it: a product can overflow to infinity and a square can
  underflow to zero. \<open>gram_matrix\<close> and \<open>style_loss\<close> are therefore modelled a second
  time, with the arithmetic of the float32 tensors they compute on.

  A real number is rounded to the nearest number of the binary32 format, a tie to the
  one with an even significand: the numbers of the format have 24 significant bits and
  an exponent of at least \<open>-126\<close>, so that below \<open>2 ^ -126\<close> they are the multiples of
  \<open>2 ^ -149\<close>, and a result of magnitude \<open>2 ^ 128\<close> or more becomes an infinity. The two
  zeros of the format are not distinguished.
\<close>

definition f32_exponent :: "real \<Rightarrow> int" where
  "f32_exponent x = max \<lfloor>log 2 \<bar>x\<bar>\<rfloor> (- 126)"

definition f32_round :: "real \<Rightarrow> fl" where
  "f32_round x =
     (if x = 0 then Fin 0
      else
        (let ulp = 2 powr real_of_int (f32_exponent x - 23);
             r = real_of_int (py_round (x / ulp)) * ulp
         in if 2 ^ 128 \<le> \<bar>r\<bar> then (if 0 < x then PInf else NInf) else Fin r))"

text \<open>
  The operations of the tensors: the exact result is rounded; an operand that is not
  finite is treated as in the exact operations.
\<close>

fun f32_add :: "fl \<Rightarrow> fl \<Rightarrow> fl" where
  "f32_add (Fin a) (Fin b) = f32_round (a + b)"
| "f32_add a b = fl_add a b"

definition f32_sub :: "fl \<Rightarrow> fl \<Rightarrow> fl" where
  "f32_sub a b = f32_add a (fl_neg b)"

fun f32_mul :: "fl \<Rightarrow> fl \<Rightarrow> fl" where
  "f32_mul (Fin a) (Fin b) = f32_round (a * b)"
| "f32_mul a b = fl_mul a b"

definition f32_square :: "fl \<Rightarrow> fl" where
  "f32_square a = f32_mul a a"

text \<open>Division; a zero divisor has the positive sign.\<close>

fun f32_div :: "fl \<Rightarrow> fl \<Rightarrow> fl" where
  "f32_div (Fin a) (Fin b) =
     (if b = 0 then (if a = 0 then NaN else if 0 < a then PInf else NInf)
      else f32_round (a / b))"
| "f32_div NaN _ = NaN"
| "f32_div _ NaN = NaN"
| "f32_div (Fin a) _ = Fin 0"
| "f32_div PInf (Fin b) = (if 0 \<le> b then PInf else NInf)"
| "f32_div NInf (Fin b) = (if 0 \<le> b then NInf else PInf)"
| "f32_div _ _ = NaN"

text \<open>
  The sums of \<open>tf.matmul\<close> and \<open>tf.reduce_mean\<close> are accumulated in the order of the
  indices here; the libraries do not fix the order, and the properties proved about
  these sums hold for every order. A count of elements is cast to float32 before it
  divides.
\<close>

definition f32_sum :: "fl list \<Rightarrow> fl" where
  "f32_sum xs = foldl f32_add (Fin 0) xs"

definition tf_sub_f32 :: "ndarray \<Rightarrow> ndarray \<Rightarrow> error + ndarray" where
  "tf_sub_f32 x y =
     (case broadcast_shapes (shape x) (shape y) of
        None \<Rightarrow> Inl InvalidArgumentError
      | Some sh \<Rightarrow>
          Inr \<lparr>shape = sh, dtype = Float32,
               elems = (\<lambda>idx. f32_sub (elems x (bidx (shape x) idx)) (elems y (bidx (shape y) idx)))\<rparr>)"

definition tf_square_f32 :: "ndarray \<Rightarrow> ndarray" where
  "tf_square_f32 x = x\<lparr>elems := (\<lambda>idx. f32_square (elems x idx))\<rparr>"

definition reduce_mean_f32 :: "ndarray \<Rightarrow> fl" where
  "reduce_mean_f32 x =
     f32_div (f32_sum (map (elems x) (indices (shape x)))) (f32_round (real (prod_list (shape x))))"

text \<open>\<open>gram_matrix\<close> and \<open>style_loss\<close> on float32 tensors.\<close>

definition gram_matrix_f32 :: "ndarray \<Rightarrow> error + ndarray" where
  "gram_matrix_f32 input_tensor =
     (if shape input_tensor = [] then Inl IndexError
      else
        (let channels = last (shape input_tensor);
             rows = indices (butlast (shape input_tensor));
             n = prod_list (butlast (shape input_tensor))
         in if channels = 0 then Inl InvalidArgumentError
            else Inr \<lparr>shape = [channels, channels], dtype = Float32,
                      elems = (\<lambda>idx.
                        f32_div
                          (f32_sum (map (\<lambda>r. f32_mul (elems input_tensor (r @ [idx ! 0]))
                                                     (elems input_tensor (r @ [idx ! 1]))) rows))
                          (f32_round (real n)))\<rparr>))"

definition style_loss_f32 :: "ndarray \<Rightarrow> ndarray \<Rightarrow> error + fl" where
  "style_loss_f32 base_style gram_target =
     (case gram_matrix_f32 base_style of
        Inl e \<Rightarrow> Inl e
      | Inr gram_style \<Rightarrow>
          (case tf_sub_f32 gram_style gram_target of
             Inl e \<Rightarrow> Inl e
           | Inr d \<Rightarrow> Inr (reduce_mean_f32 (tf_square_f32 d))))"

section \<open>The optimization\<close>

text \<open>A list comprehension whose element expression can raise.\<close>

fun map_err :: "('a \<Rightarrow> error + 'b) \<Rightarrow> 'a list \<Rightarrow> error + 'b list" where
  "map_err f [] = Inr []"
| "map_err f (x # xs) =
     (case f x of
        Inl e \<Rightarrow> Inl e
      | Inr y \<Rightarrow> (case map_err f xs of Inl e \<Rightarrow> Inl e | Inr ys \<Rightarrow> Inr (y # ys)))"

text \<open>
  \<open>run_gradient_descent\<close>: both images are loaded and preprocessed, then passed
  through the model.
\<close>

definition run_gradient_descent ::
  "'o env \<Rightarrow> image_converter \<Rightarrow> (ndarray \<Rightarrow> error + ndarray list) \<Rightarrow> string \<Rightarrow> string \<Rightarrow>
   string list \<Rightarrow> (error + (ndarray list \<times> ndarray list)) \<times> string list" where
  "run_gradient_descent b self model content_path' style_path' opened =
     (case load_and_process_img b self content_path' opened of
        (Inl e, opened1) \<Rightarrow> (Inl e, opened1)
      | (Inr content_image, opened1) \<Rightarrow>
          (case load_and_process_img b self style_path' opened1 of
             (Inl e, opened2) \<Rightarrow> (Inl e, opened2)
           | (Inr style_image, opened2) \<Rightarrow>
               (case model style_image of
                  Inl e \<Rightarrow> Inl e
                | Inr style_outputs \<Rightarrow>
                    (case model content_image of
                       Inl e \<Rightarrow> Inl e
                     | Inr content_outputs \<Rightarrow>
                         (case map_err index0 (take (num_style_layers self) style_outputs) of
                            Inl e \<Rightarrow> Inl e
                          | Inr style_features \<Rightarrow>
                              (case map_err index0 (drop (num_style_layers self) content_outputs) of
                                 Inl e \<Rightarrow> Inl e
                               | Inr content_features \<Rightarrow> Inr (style_features, content_features)))),
                opened2)))"

text \<open>The keyword arguments of \<open>compute_loss\<close>; \<open>init_image\<close> is the variable that is optimized.\<close>

record cfg =
  model :: "ndarray \<Rightarrow> error + ndarray list"
  loss_weights :: "fl \<times> fl"
  init_image :: ndarray
  gram_style_features :: "ndarray list"
  content_features :: "ndarray list"

text \<open>
  \<open>tape.gradient(total_loss, cfg['init_image'])\<close>: the gradient of the recorded total
  loss has the shape of the variable.
\<close>

definition tape_gradient :: "'o env \<Rightarrow> cfg \<Rightarrow> ndarray" where
  "tape_gradient b c =
     \<lparr>shape = shape (init_image c), dtype = Float32,
      elems = grad_vals b (loss_weights c) (gram_style_features c) (content_features c)
                (init_image c)\<rparr>"

text \<open>\<open>compute_grads\<close>: the loss is computed under the gradient tape.\<close>

definition compute_grads ::
  "'o env \<Rightarrow> image_converter \<Rightarrow> cfg \<Rightarrow> error + (ndarray \<times> (fl \<times> fl \<times> fl))" where
  "compute_grads b self c =
     (case compute_loss self (model c) (loss_weights c) (init_image c)
             (gram_style_features c) (content_features c) of
        Inl e \<Rightarrow> Inl e
      | Inr all_loss \<Rightarrow> Inr (tape_gradient b c, all_loss))"

text \<open>\<open>tf.clip_by_value\<close> with bounds that are broadcast against the tensor.\<close>

definition clip_by_value :: "ndarray \<Rightarrow> ndarray \<Rightarrow> ndarray \<Rightarrow> error + ndarray" where
  "clip_by_value t clip_value_min clip_value_max =
     (case broadcast_shapes (shape t) (shape clip_value_max) of
        None \<Rightarrow> Inl InvalidArgumentError
      | Some sh1 \<Rightarrow>
          (case broadcast_shapes sh1 (shape clip_value_min) of
             None \<Rightarrow> Inl InvalidArgumentError
           | Some sh \<Rightarrow>
               Inr \<lparr>shape = sh, dtype = dtype t,
                    elems = (\<lambda>idx. fl_clip (elems clip_value_min (bidx (shape clip_value_min) idx))
                                       (elems clip_value_max (bidx (shape clip_value_max) idx))
                                       (elems t (bidx (shape t) idx)))\<rparr>))"

text \<open>Python's \<open>%\<close> on floats with a divisor that is not zero.\<close>

definition py_fmod :: "real \<Rightarrow> real \<Rightarrow> real" where
  "py_fmod x y = x - of_int \<lfloor>x / y\<rfloor> * y"

text \<open>
  The state of the loop: the object (whose \<open>cur_iter\<close> the loop sets), the keyword
  arguments with the variable, the state of the optimizer, the best loss and image so
  far, and the images kept for display.
\<close>

record 'o loop_state =
  self_obj :: image_converter
  args :: cfg
  opt :: 'o
  best_loss :: fl
  best_img :: "ndarray option"
  imgs :: "ndarray list"

text \<open>One pass through the body of the loop of \<open>run_style_transfer\<close>.\<close>

definition iteration_step ::
  "'o env \<Rightarrow> real \<Rightarrow> ndarray \<Rightarrow> ndarray \<Rightarrow> 'o loop_state \<Rightarrow> int \<Rightarrow> error + 'o loop_state" where
  "iteration_step b display_interval min_vals max_vals s i =
     (let s1 = s\<lparr>self_obj := (self_obj s)\<lparr>cur_iter := i\<rparr>\<rparr> in
      case compute_grads b (self_obj s1) (args s1) of
        Inl e \<Rightarrow> Inl e
      | Inr (grads, loss, style_score, content_score) \<Rightarrow>
          (let (opt', vals) = adam_step b (opt s1) grads (init_image (args s1));
               updated = (init_image (args s1))\<lparr>elems := vals\<rparr>
           in case clip_by_value updated min_vals max_vals of
                Inl e \<Rightarrow> Inl e
              | Inr clipped \<Rightarrow>
                  if shape clipped \<noteq> shape updated then Inl ValueError
                  else
                    (let s2 = s1\<lparr>args := (args s1)\<lparr>init_image := clipped\<lparr>dtype := Float32\<rparr>\<rparr>,
                                  opt := opt'\<rparr>
                     in case (if fl_less loss (best_loss s2)
                              then (case deprocess_img (init_image (args s2)) of
                                      Inl e \<Rightarrow> Inl e
                                    | Inr img \<Rightarrow> Inr (s2\<lparr>best_loss := loss, best_img := Some img\<rparr>))
                              else Inr s2) of
                          Inl e \<Rightarrow> Inl e
                        | Inr s3 \<Rightarrow>
                            if display_interval = 0 then Inl ZeroDivisionError
                            else if py_fmod (real_of_int i) display_interval = 0
                            then (case deprocess_img (init_image (args s3)) of
                                    Inl e \<Rightarrow> Inl e
                                  | Inr plot_img \<Rightarrow> Inr (s3\<lparr>imgs := imgs s3 @ [plot_img]\<rparr>))
                            else Inr s3)))"

fun run_loop ::
  "'o env \<Rightarrow> real \<Rightarrow> ndarray \<Rightarrow> ndarray \<Rightarrow> 'o loop_state \<Rightarrow> int list \<Rightarrow> error + 'o loop_state" where
  "run_loop b display_interval min_vals max_vals s [] = Inr s"
| "run_loop b display_interval min_vals max_vals s (i # rest) =
     (case iteration_step b display_interval min_vals max_vals s i of
        Inl e \<Rightarrow> Inl e
      | Inr s' \<Rightarrow> run_loop b display_interval min_vals max_vals s' rest)"

text \<open>Python's \<open>range(n)\<close>.\<close>

definition py_range :: "int \<Rightarrow> int list" where
  "py_range n = map int [0..<nat n]"

definition min_vals_of :: "real list \<Rightarrow> ndarray" where
  "min_vals_of means =
     \<lparr>shape = [length means], dtype = Float64, elems = (\<lambda>idx. Fin (- (means ! (idx ! 0))))\<rparr>"

definition max_vals_of :: "real list \<Rightarrow> ndarray" where
  "max_vals_of means =
     \<lparr>shape = [length means], dtype = Float64, elems = (\<lambda>idx. Fin (255 - means ! (idx ! 0)))\<rparr>"

text \<open>
  The state in which the loop starts, or the error raised before it: the features of
  both images, the Gram matrices of the style features, the variable initialized with
  the content image loaded once more, the optimizer, and no best image with a best
  loss of infinity.
\<close>

definition run_setup ::
  "'o env \<Rightarrow> image_converter \<Rightarrow> fl \<Rightarrow> fl \<Rightarrow> string list \<Rightarrow> (error + 'o loop_state) \<times> string list" where
  "run_setup b self content_weight style_weight opened =
     (let model' = get_model b self in
      case run_gradient_descent b self model' (content_path self) (style_path self) opened of
        (Inl e, opened1) \<Rightarrow> (Inl e, opened1)
      | (Inr (style_features, content_features'), opened1) \<Rightarrow>
          (case map_err gram_matrix style_features of
             Inl e \<Rightarrow> (Inl e, opened1)
           | Inr gram_style_features' \<Rightarrow>
               (case load_and_process_img b self (content_path self) opened1 of
                  (Inl e, opened2) \<Rightarrow> (Inl e, opened2)
                | (Inr init_image', opened2) \<Rightarrow>
                    (Inr \<lparr>self_obj = self,
                          args = \<lparr>model = model', loss_weights = (style_weight, content_weight),
                                  init_image = init_image'\<lparr>dtype := Float32\<rparr>,
                                  gram_style_features = gram_style_features',
                                  content_features = content_features'\<rparr>,
                          opt = adam_init b, best_loss = PInf, best_img = None, imgs = []\<rparr>,
                     opened2))))"

text \<open>
  \<open>run_style_transfer\<close>: the setup, the loop over \<open>range(self.iteration)\<close>, and the best
  image as the result (\<open>None\<close> when no iteration set it).
\<close>

definition run_style_transfer ::
  "'o env \<Rightarrow> image_converter \<Rightarrow> fl \<Rightarrow> fl \<Rightarrow> string list \<Rightarrow> (error + ndarray option) \<times> string list" where
  "run_style_transfer b self content_weight style_weight opened =
     (case run_setup b self content_weight style_weight opened of
        (Inl e, opened') \<Rightarrow> (Inl e, opened')
      | (Inr s0, opened') \<Rightarrow>
          (let num_rows = 2; num_cols = 5;
               display_interval = real_of_int (iteration self) / real_of_int (num_rows * num_cols);
               min_vals = min_vals_of norm_means;
               max_vals = max_vals_of norm_means
           in case run_loop b display_interval min_vals max_vals s0 (py_range (iteration self)) of
                Inl e \<Rightarrow> (Inl e, opened')
              | Inr s \<Rightarrow> (Inr (best_img s), opened')))"

section \<open>Notions used in the statements\<close>

text \<open>
  The loss of one layer, as the loops of \<open>compute_loss\<close> compute it from a target and
  the output of the model for that layer.
\<close>

definition style_layer_loss :: "ndarray \<times> ndarray \<Rightarrow> error + fl" where
  "style_layer_loss p =
     (case index0 (snd p) of Inl e \<Rightarrow> Inl e | Inr c \<Rightarrow> style_loss c (fst p))"

definition content_layer_loss :: "ndarray \<times> ndarray \<Rightarrow> error + fl" where
  "content_layer_loss p =
     (case index0 (snd p) of Inl e \<Rightarrow> Inl e | Inr c \<Rightarrow> content_loss c (fst p))"

text \<open>The average of a list of numbers.\<close>

definition fl_average :: "fl list \<Rightarrow> fl" where
  "fl_average ls = fl_div_count (fl_sum ls) (length ls)"

text \<open>
  The network is usable by the object: the object counts its layers as \<open>__init__\<close>
  does, has a style and a content layer, and every style layer has a channel.
\<close>

definition layers_ok :: "'o env \<Rightarrow> image_converter \<Rightarrow> bool" where
  "layers_ok b self =
     (num_style_layers self = length (style_layers self)
      \<and> num_content_layers self = length (content_layers self)
      \<and> style_layers self \<noteq> [] \<and> content_layers self \<noteq> []
      \<and> list_all (\<lambda>name. 0 < layer_channels b name) (style_layers self))"

text \<open>
  The shapes that the state of the loop keeps: the variable is a batch of one image of
  height \<open>H\<close>, width \<open>W\<close> and three channels, the model is the one of the object, and
  the targets have the shapes of the layers they belong to.
\<close>

definition wf_state :: "'o env \<Rightarrow> image_converter \<Rightarrow> nat \<Rightarrow> nat \<Rightarrow> 'o loop_state \<Rightarrow> bool" where
  "wf_state b self H W s =
     ((\<exists>k. self_obj s = self\<lparr>cur_iter := k\<rparr>)
      \<and> shape (init_image (args s)) = [1, H, W, 3]
      \<and> model (args s) = get_model b self
      \<and> list_all2 (\<lambda>g name. shape g = [layer_channels b name, layer_channels b name])
           (gram_style_features (args s)) (style_layers self)
      \<and> list_all2 (\<lambda>c name. shape c = [fst (layer_hw b name H W), snd (layer_hw b name H W),
                                         layer_channels b name])
           (content_features (args s)) (content_layers self))"

text \<open>A path whose image loads and preprocesses without an error.\<close>

definition load_succeeds :: "'o env \<Rightarrow> image_converter \<Rightarrow> string \<Rightarrow> bool" where
  "load_succeeds b self p =
     (case fst (load_and_process_img b self p []) of Inl e \<Rightarrow> False | Inr t \<Rightarrow> True)"

text \<open>The total loss that iteration \<open>i\<close> computes when it starts in the state \<open>s\<close>.\<close>

definition iteration_loss :: "'o env \<Rightarrow> 'o loop_state \<Rightarrow> int \<Rightarrow> error + fl" where
  "iteration_loss b s i =
     (case compute_grads b ((self_obj s)\<lparr>cur_iter := i\<rparr>) (args s) of
        Inl e \<Rightarrow> Inl e
      | Inr (grads, loss, style_score, content_score) \<Rightarrow> Inr loss)"

text \<open>
  The state of a call of \<open>run_style_transfer\<close> after the setup and the iterations
  \<open>done\<close>, a prefix of \<open>range(self.iteration)\<close>.
\<close>

definition state_after ::
  "'o env \<Rightarrow> image_converter \<Rightarrow> fl \<Rightarrow> fl \<Rightarrow> int list \<Rightarrow> error + 'o loop_state" where
  "state_after b self content_weight style_weight done =
     (case fst (run_setup b self content_weight style_weight []) of
        Inl e \<Rightarrow> Inl e
      | Inr s0 \<Rightarrow>
          run_loop b (real_of_int (iteration self) / real_of_int (2 * 5))
            (min_vals_of norm_means) (max_vals_of norm_means) s0 done)"


text \<open>The element of the variable at an index, in a state of the loop that was reached.\<close>

definition candidate_at :: "error + 'o loop_state \<Rightarrow> nat list \<Rightarrow> error + fl" where
  "candidate_at r idx =
     (case r of Inl e \<Rightarrow> Inl e | Inr s \<Rightarrow> Inr (elems (init_image (args s)) idx))"

text \<open>An array without an infinite or NaN element.\<close>

definition all_finite :: "ndarray \<Rightarrow> bool" where
  "all_finite x = list_all (\<lambda>idx. is_finite (elems x idx)) (indices (shape x))"

section \<open>Inputs of the examples\<close>

text \<open>
  A solid image and a checkerboard of 64 by 64 pixels, and the surroundings of a small
  run: the two files, a nearest-neighbour filter, a network whose layers have one
  channel and one position and read the first number of their input, a gradient that is
  the sum of the two weights, and an optimizer that takes a gradient step of rate 5.
\<close>

definition solid_image :: image where
  "solid_image = \<lparr>width = 64, height = 64, pixel = (\<lambda>x y c. 200)\<rparr>"

definition checkerboard_image :: image where
  "checkerboard_image =
     \<lparr>width = 64, height = 64, pixel = (\<lambda>x y c. if even (x + y) then 255 else 0)\<rparr>"

definition example_env :: "unit env" where
  "example_env =
     \<lparr>files = (\<lambda>p. if p = ''content.png'' then Some solid_image
                   else if p = ''style.png'' then Some checkerboard_image else None),
      resample = (\<lambda>img w h x y c. pixel img (x * width img div w) (y * height img div h) c),
      layer_hw = (\<lambda>name h w. (1, 1)),
      layer_channels = (\<lambda>name. 1),
      layer_vals = (\<lambda>name x idx. elems x [0, 0, 0, 0]),
      grad_vals = (\<lambda>weights grams contents x idx. fl_add (fst weights) (snd weights)),
      adam_init = (),
      adam_step = (\<lambda>state g x. ((), (\<lambda>idx. fl_sub (elems x idx) (fl_mul (Fin 5) (elems g idx)))))\<rparr>"

definition example_converter :: "int \<Rightarrow> int \<Rightarrow> image_converter" where
  "example_converter iter md = ImageConverter ''content.png'' ''style.png'' iter md"

text \<open>
  Arrays with the same value at every index: a given number, or a power of two, which
  float32 represents exactly between \<open>2 ^ -149\<close> and \<open>2 ^ 127\<close>.
\<close>

definition constant_array :: "nat list \<Rightarrow> real \<Rightarrow> ndarray" where
  "constant_array sh v = \<lparr>shape = sh, dtype = Float32, elems = (\<lambda>idx. Fin v)\<rparr>"

definition pow2_array :: "nat list \<Rightarrow> int \<Rightarrow> ndarray" where
  "pow2_array sh j = \<lparr>shape = sh, dtype = Float32, elems = (\<lambda>idx. Fin (2 powr real_of_int j))\<rparr>"

definition rank2_array :: ndarray where
  "rank2_array = \<lparr>shape = [2, 2], dtype = Float32, elems = (\<lambda>idx. Fin 0)\<rparr>"

definition rank5_array :: ndarray where
  "rank5_array = \<lparr>shape = [1, 1, 2, 2, 3], dtype = Float32, elems = (\<lambda>idx. Fin 0)\<rparr>"

section \<open>Properties of postprocessing\<close>

text \<open>
  C8. An array of two or of five axes, and more generally every array whose number of
  axes is neither three nor four, ends in the error of the assertion on the shape. The
  batch axis is removed from an array of four axes only (an array of four axes whose
  first axis is longer than one ends in the error of \<open>np.squeeze\<close>), and whenever
  postprocessing returns, its input had three axes once the batch axis was removed.
\<close>

theorem deprocess_img_shape_error:
  "(length (shape x) = 2 \<or> length (shape x) = 5 \<longrightarrow> deprocess_img x = Inl AssertionError)
   \<and> (length (shape x) \<noteq> 3 \<and> length (shape x) \<noteq> 4 \<longrightarrow> deprocess_img x = Inl AssertionError)
   \<and> (length (shape x) = 4 \<and> shape x ! 0 \<noteq> 1 \<longrightarrow> deprocess_img x = Inl ValueError)
   \<and> (\<forall>y. deprocess_img x = Inr y \<longrightarrow>
          (length (shape x) = 3 \<and> shape y = shape x)
          \<or> (length (shape x) = 4 \<and> shape x ! 0 = 1 \<and> shape y = tl (shape x)))"
proof (intro conjI impI allI)
  assume "length (shape x) = 2 \<or> length (shape x) = 5"
  then show "deprocess_img x = Inl AssertionError"
    by (auto simp: deprocess_img_def)
next
  assume "length (shape x) \<noteq> 3 \<and> length (shape x) \<noteq> 4"
  then show "deprocess_img x = Inl AssertionError"
    by (simp add: deprocess_img_def)
next
  assume "length (shape x) = 4 \<and> shape x ! 0 \<noteq> 1"
  then show "deprocess_img x = Inl ValueError"
    by (auto simp: deprocess_img_def squeeze0_def split: list.splits)
next
  fix y
  assume "deprocess_img x = Inr y"
  then show "(length (shape x) = 3 \<and> shape y = shape x)
          \<or> (length (shape x) = 4 \<and> shape x ! 0 = 1 \<and> shape y = tl (shape x))"
    by (auto simp: deprocess_img_def squeeze0_def add_channel_def clip_to_uint8_def
        reverse_channels_def split: if_splits sum.splits list.splits)
qed

theorem deprocess_img_shape_error_witness:
  "deprocess_img rank2_array = Inl AssertionError \<and> deprocess_img rank5_array = Inl AssertionError"
  using deprocess_img_shape_error [of rank2_array] deprocess_img_shape_error [of rank5_array]
  by (simp add: rank2_array_def rank5_array_def)

section \<open>Properties of the transfer\<close>

subsection \<open>Preprocessing followed by postprocessing\<close>

lemma py_round_of_int [simp]: "py_round (of_int n) = n"
  by (simp add: py_round_def)

lemma py_round_of_nat [simp]: "py_round (real n) = int n"
  using py_round_of_int [of "int n"] by simp





lemma preprocess_image_array:
  "preprocess_input (expand_dims0 (img_to_array img)) =
     Inr \<lparr>shape = [1, height img, width img, 3], dtype = Float32,
          elems = (\<lambda>idx.
             let c = last idx;
                 v = pixel_value (pixel img (tl (butlast idx @ [2 - c]) ! 1)
                        (tl (butlast idx @ [2 - c]) ! 0) (tl (butlast idx @ [2 - c]) ! 2))
             in if c < 3 then fl_sub v (Fin (norm_means ! c)) else v)\<rparr>"
  by (simp add: preprocess_input_def expand_dims0_def img_to_array_def Let_def)


subsection \<open>Indices, broadcasting and sums\<close>

lemma set_indices: "set (indices sh) = {idx. valid_index sh idx}"
proof (induction sh)
  case Nil
  show ?case by (auto simp: valid_index_def)
next
  case (Cons d ds)
  show ?case
  proof (rule set_eqI)
    fix idx
    show "idx \<in> set (indices (d # ds)) \<longleftrightarrow> idx \<in> {idx. valid_index (d # ds) idx}"
      using Cons by (cases idx) (auto simp: valid_index_def)
  qed
qed

lemma length_indices: "length (indices sh) = prod_list sh"
proof (induction sh)
  case Nil
  show ?case by simp
next
  case (Cons d ds)
  have "length (concat (map (\<lambda>i. map ((#) i) (indices ds)) [0..<d])) = d * length (indices ds)"
    by (induction d) (simp_all add: )
  then show ?case using Cons by simp
qed

declare indices.simps [simp del]

lemma bidx_valid: "valid_index sh idx \<Longrightarrow> bidx sh idx = idx"
proof -
  assume v: "valid_index sh idx"
  then have l: "length idx = length sh" by (simp add: valid_index_def list_all2_lengthD)
  have "map2 (\<lambda>d i. if d = 1 then 0 else i) sh idx = idx"
    using v unfolding valid_index_def
    by (induction idx sh rule: list_all2_induct) auto
  then show ?thesis by (simp add: bidx_def l)
qed

lemma bshape_rev_same: "bshape_rev xs xs = Some xs"
  by (induction xs) auto

lemma broadcast_shapes_same: "broadcast_shapes sh sh = Some sh"
  by (simp add: broadcast_shapes_def bshape_rev_same)

subsection \<open>Gram matrix and style loss\<close>

lemma style_loss_eq:
  assumes "gram_matrix base = Inr g" and "shape g = [c, c]" and "shape target = [c, c]"
  shows "style_loss base target =
     Inr (fl_div_count
            (fl_sum (map (\<lambda>idx. fl_square (fl_sub (elems g idx) (elems target idx))) (indices [c, c])))
            (c * c))"
proof -
  have m: "map (\<lambda>idx. fl_square (fl_sub (elems g (bidx [c, c] idx)) (elems target (bidx [c, c] idx))))
          (indices [c, c])
      = map (\<lambda>idx. fl_square (fl_sub (elems g idx) (elems target idx))) (indices [c, c])"
  proof (rule map_cong [OF refl])
    fix idx assume "idx \<in> set (indices [c, c])"
    then have "valid_index [c, c] idx" using set_indices [of "[c, c]"] by simp
    then have "bidx [c, c] idx = idx" by (rule bidx_valid)
    then show "fl_square (fl_sub (elems g (bidx [c, c] idx)) (elems target (bidx [c, c] idx)))
        = fl_square (fl_sub (elems g idx) (elems target idx))" by simp
  qed
  show ?thesis
    using assms
    by (simp add: style_loss_def tf_sub_def broadcast_shapes_same reduce_mean_def tf_square_def
        comp_def m)
qed

subsection \<open>Rounding to float32, and the style loss in float32\<close>

lemma f32_round_zero [simp]: "f32_round 0 = Fin 0"
  by (simp add: f32_round_def)

lemma py_round_small: "0 \<le> y \<Longrightarrow> y \<le> 1 / 2 \<Longrightarrow> py_round y = 0"
proof -
  assume a: "0 \<le> y" "y \<le> 1 / 2"
  then have f: "\<lfloor>y\<rfloor> = 0" by linarith
  show ?thesis using a by (simp add: py_round_def f Let_def)
qed

lemma py_round_ge_floor: "\<lfloor>y\<rfloor> \<le> py_round y"
  by (simp add: py_round_def Let_def)

lemma f32_exponent_pow2: "f32_exponent (2 powr real_of_int j) = max j (- 126)"
  by (simp add: f32_exponent_def)

lemma f32_round_pow2:
  "f32_round (2 powr real_of_int j) =
     (if 128 \<le> j then PInf else if - 149 \<le> j then Fin (2 powr real_of_int j) else Fin 0)"
proof -
  let ?x = "2 powr real_of_int j :: real"
  have x0: "?x \<noteq> 0" "0 < ?x" by simp_all
  show ?thesis
  proof (cases "- 126 \<le> j")
    case True
    then have e: "f32_exponent ?x = j" by (simp add: f32_exponent_pow2)
    have q: "?x / 2 powr real_of_int (j - 23) = real_of_int 8388608"
    proof -
      have "?x / 2 powr real_of_int (j - 23) = 2 powr (real_of_int j - real_of_int (j - 23))"
        by (simp only: powr_diff)
      also have "\<dots> = 2 powr 23" by simp
      also have "\<dots> = real_of_int 8388608" by (simp add: powr_numeral)
      finally show ?thesis .
    qed
    have r: "real_of_int (py_round (?x / 2 powr real_of_int (j - 23))) * 2 powr real_of_int (j - 23) = ?x"
    proof -
      have "real_of_int 8388608 * 2 powr real_of_int (j - 23) = 2 powr 23 * 2 powr real_of_int (j - 23)"
        by (simp add: powr_numeral)
      also have "\<dots> = 2 powr (23 + real_of_int (j - 23))" by (simp only: powr_add)
      also have "\<dots> = ?x" by simp
      finally show ?thesis unfolding q py_round_of_int .
    qed
    have big: "(2 ^ 128 \<le> \<bar>?x\<bar>) = (128 \<le> j)"
    proof -
      have c: "((2::real) powr real_of_int 128 \<le> 2 powr real_of_int j)
          = (real_of_int 128 \<le> real_of_int j)"
        by (rule powr_le_cancel_iff) simp
      have "(2 ^ 128 \<le> \<bar>?x\<bar>) = (2 powr real_of_int 128 \<le> ?x)"
        by (simp add: powr_numeral)
      also note c
      also have "(real_of_int 128 \<le> real_of_int j) = (128 \<le> j)" by linarith
      finally show ?thesis .
    qed
    show ?thesis
      unfolding f32_round_def Let_def e r big using x0 True by simp
  next
    case False
    then have e: "f32_exponent ?x = - 126" by (simp add: f32_exponent_pow2)
    have u: "real_of_int (- 126 - 23) = - 149" by simp
    have q: "?x / 2 powr (- 149) = 2 powr (real_of_int j + 149)"
      by (simp add: powr_diff [symmetric])
    have small: "?x < 2 ^ 128"
    proof -
      have "?x \<le> 2 powr 0" using False by (intro powr_mono) simp_all
      then show ?thesis by simp
    qed
    show ?thesis
    proof (cases "- 149 \<le> j")
      case True
      define k where "k = nat (j + 149)"
      have k: "real_of_int j + 149 = real k" using True by (simp add: k_def)
      have q': "?x / 2 powr (- 149) = real_of_int (2 ^ k)"
        unfolding q k by (simp add: powr_realpow)
      have r: "real_of_int (py_round (?x / 2 powr (- 149))) * 2 powr (- 149) = ?x"
      proof -
        have "real_of_int (2 ^ k) * 2 powr (- 149) = 2 powr real k * 2 powr (- 149)"
          by (simp add: powr_realpow)
        also have "\<dots> = 2 powr (real k + (- 149))" by (simp only: powr_add)
        also have "real k + (- 149) = real_of_int j" using k by linarith
        finally show ?thesis unfolding q' py_round_of_int .
      qed
      show ?thesis
        unfolding f32_round_def Let_def e u r using x0 small True False by simp
    next
      case F2: False
      have "2 powr (real_of_int j + 149) \<le> (2::real) powr (- 1)"
        using F2 by (intro powr_mono) simp_all
      then have le: "?x / 2 powr (- 149) \<le> 1 / 2" unfolding q by (simp add: powr_minus)
      have ge: "0 \<le> ?x / 2 powr (- 149)" by simp
      have r: "py_round (?x / 2 powr (- 149)) = 0" by (rule py_round_small [OF ge le])
      show ?thesis
        unfolding f32_round_def Let_def e u r using x0 F2 False by simp
    qed
  qed
qed

lemma f32_round_count:
  assumes "0 < n"
  shows "f32_round (real n) = PInf \<or> (\<exists>m. f32_round (real n) = Fin m \<and> 0 < m)"
proof -
  let ?x = "real n"
  have x1: "1 \<le> ?x" using assms by simp
  define e where "e = \<lfloor>log 2 ?x\<rfloor>"
  have e0: "0 \<le> e" using x1 by (simp add: e_def)
  have ex: "f32_exponent ?x = e" using e0 by (simp add: f32_exponent_def e_def)
  have le: "2 powr real_of_int e \<le> ?x"
  proof -
    have "real_of_int e \<le> log 2 ?x" by (simp add: e_def)
    then have "2 powr real_of_int e \<le> 2 powr log 2 ?x" by (intro powr_mono) simp_all
    then show ?thesis using x1 by simp
  qed
  define u where "u = 2 powr real_of_int (e - 23)"
  have u0: "0 < u" by (simp add: u_def)
  have "2 powr 23 * u = 2 powr (23 + real_of_int (e - 23))"
    unfolding u_def by (simp only: powr_add)
  also have "\<dots> = 2 powr real_of_int e" by simp
  finally have "2 powr 23 * u \<le> ?x" using le by simp
  then have "2 powr 23 \<le> ?x / u" using u0 by (simp add: pos_le_divide_eq)
  then have "1 \<le> ?x / u" by (simp add: powr_numeral)
  then have "1 \<le> \<lfloor>?x / u\<rfloor>" by linarith
  then have p: "1 \<le> py_round (?x / u)" using py_round_ge_floor [of "?x / u"] by linarith
  then have r: "0 < real_of_int (py_round (?x / u)) * u" using u0 by simp
  show ?thesis
    unfolding f32_round_def Let_def ex u_def [symmetric] using x1 r by auto
qed

lemma f32_sub_self: "f32_sub a a = (if is_finite a then Fin 0 else NaN)"
  by (cases a) (simp_all add: f32_sub_def)

lemma f32_square_zero: "f32_square (Fin 0) = Fin 0"
  by (simp add: f32_square_def)

lemma f32_square_NaN: "f32_square NaN = NaN"
  by (simp add: f32_square_def)

lemma f32_add_NaN_left: "f32_add NaN a = NaN"
  by (cases a) simp_all

lemma f32_add_NaN_right: "f32_add a NaN = NaN"
  by (cases a) simp_all

lemma foldl_f32_NaN: "foldl f32_add NaN xs = NaN"
  by (induction xs) (simp_all add: f32_add_NaN_left)

lemma foldl_f32_has_NaN: "NaN \<in> set xs \<Longrightarrow> foldl f32_add a xs = NaN"
proof (induction xs arbitrary: a)
  case Nil
  then show ?case by simp
next
  case (Cons x xs)
  show ?case
  proof (cases "x = NaN")
    case True
    have "foldl f32_add a (NaN # xs) = foldl f32_add (f32_add a NaN) xs" by (rule foldl_Cons)
    also have "\<dots> = NaN" by (simp only: f32_add_NaN_right foldl_f32_NaN)
    finally show ?thesis unfolding True .
  next
    case False
    then have "NaN \<in> set xs" using Cons.prems by auto
    then show ?thesis using Cons.IH by simp
  qed
qed

lemma foldl_f32_zeros: "\<forall>x \<in> set xs. x = Fin 0 \<Longrightarrow> foldl f32_add (Fin 0) xs = Fin 0"
  by (induction xs) simp_all

lemma f32_div_zero_count:
  assumes "0 < n"
  shows "f32_div (Fin 0) (f32_round (real n)) = Fin 0"
  using f32_round_count [OF assms] by auto

lemma f32_div_NaN: "f32_div NaN b = NaN"
  by simp

lemma gram_matrix_f32_shape:
  assumes "gram_matrix_f32 base = Inr g"
  shows "shape base \<noteq> [] \<and> 0 < last (shape base) \<and> shape g = [last (shape base), last (shape base)]"
  using assms by (auto simp: gram_matrix_f32_def Let_def split: if_splits)

lemma gram_matrix_f32_defined:
  assumes "shape base \<noteq> []" and "0 < last (shape base)"
  shows "\<exists>g. gram_matrix_f32 base = Inr g"
  using assms by (simp add: gram_matrix_f32_def Let_def)

lemma style_loss_f32_eq:
  assumes "gram_matrix_f32 base = Inr g" and "shape target = shape g"
  shows "style_loss_f32 base target =
     Inr (f32_div
            (f32_sum (map (\<lambda>idx. f32_square (f32_sub (elems g idx) (elems target idx)))
                        (indices (shape g))))
            (f32_round (real (prod_list (shape g)))))"
proof -
  have m: "map (\<lambda>idx. f32_square (f32_sub (elems g (bidx (shape g) idx)) (elems target (bidx (shape g) idx))))
          (indices (shape g))
      = map (\<lambda>idx. f32_square (f32_sub (elems g idx) (elems target idx))) (indices (shape g))"
  proof (rule map_cong [OF refl])
    fix idx assume "idx \<in> set (indices (shape g))"
    then have "valid_index (shape g) idx" using set_indices [of "shape g"] by simp
    then have "bidx (shape g) idx = idx" by (rule bidx_valid)
    then show "f32_square (f32_sub (elems g (bidx (shape g) idx)) (elems target (bidx (shape g) idx)))
        = f32_square (f32_sub (elems g idx) (elems target idx))" by simp
  qed
  show ?thesis
    using assms
    by (simp add: style_loss_f32_def tf_sub_f32_def broadcast_shapes_same reduce_mean_f32_def
        tf_square_f32_def comp_def m)
qed

lemma style_loss_f32_equal_gram:
  assumes g: "gram_matrix_f32 base = Inr g" and fin: "all_finite g" and eq: "nd_eq g target"
  shows "style_loss_f32 base target = Inr (Fin 0)"
proof -
  from eq have sh: "shape target = shape g"
    and el: "\<And>idx. idx \<in> set (indices (shape g)) \<Longrightarrow> elems target idx = elems g idx"
    by (simp_all add: nd_eq_def list_all_iff)
  from gram_matrix_f32_shape [OF g] have pos: "0 < prod_list (shape g)" by simp
  have z: "f32_sum (map (\<lambda>idx. f32_square (f32_sub (elems g idx) (elems target idx)))
                     (indices (shape g))) = Fin 0"
    unfolding f32_sum_def
  proof (rule foldl_f32_zeros, rule ballI)
    fix x
    assume "x \<in> set (map (\<lambda>idx. f32_square (f32_sub (elems g idx) (elems target idx)))
                        (indices (shape g)))"
    then obtain idx where i: "idx \<in> set (indices (shape g))"
      and x: "x = f32_square (f32_sub (elems g idx) (elems target idx))" by auto
    have f: "is_finite (elems g idx)" using fin i by (simp add: all_finite_def list_all_iff)
    show "x = Fin 0" unfolding x el [OF i] f32_sub_self using f by (simp add: f32_square_zero)
  qed
  show ?thesis
    unfolding style_loss_f32_eq [OF g sh] z using f32_div_zero_count [OF pos] by simp
qed

lemma nd_eq_refl: "nd_eq g g"
  by (simp add: nd_eq_def list_all_iff)

lemma style_loss_f32_own_gram:
  assumes g: "gram_matrix_f32 base = Inr g"
  shows "style_loss_f32 base g = Inr (if all_finite g then Fin 0 else NaN)"
proof (cases "all_finite g")
  case True
  then show ?thesis using style_loss_f32_equal_gram [OF g True nd_eq_refl] by simp
next
  case False
  then obtain idx where i: "idx \<in> set (indices (shape g))" and nf: "\<not> is_finite (elems g idx)"
    by (auto simp: all_finite_def list_all_iff)
  have "f32_square (f32_sub (elems g idx) (elems g idx)) = NaN"
    unfolding f32_sub_self using nf by (simp add: f32_square_NaN)
  then have "NaN \<in> set (map (\<lambda>idx. f32_square (f32_sub (elems g idx) (elems g idx)))
                           (indices (shape g)))"
    using i by force
  then have "f32_sum (map (\<lambda>idx. f32_square (f32_sub (elems g idx) (elems g idx)))
                        (indices (shape g))) = NaN"
    unfolding f32_sum_def by (rule foldl_f32_has_NaN)
  then show ?thesis
    unfolding style_loss_f32_eq [OF g refl] using False by simp
qed

text \<open>
  C7, as amended. For every feature tensor (an array with at least one axis and at
  least one channel), the style loss against its own Gram matrix, computed in float32,
  is zero when every entry of that Gram matrix is finite, and NaN when an entry is
  infinite or NaN, as it is after an overflow. More generally the style loss against a
  target is zero whenever the Gram matrix of the base has only finite entries and
  equals the target. The converse is not claimed: a difference whose square underflows
  gives a loss of zero for a target that differs from the Gram matrix.
\<close>

theorem style_loss_zero_for_finite_gram:
  assumes "shape base \<noteq> []" and "0 < last (shape base)"
  shows "\<exists>g. gram_matrix_f32 base = Inr g
     \<and> style_loss_f32 base g = Inr (if all_finite g then Fin 0 else NaN)
     \<and> (all_finite g \<and> nd_eq g target_gram \<longrightarrow> style_loss_f32 base target_gram = Inr (Fin 0))"
proof -
  from gram_matrix_f32_defined [OF assms] obtain g where g: "gram_matrix_f32 base = Inr g" ..
  have "style_loss_f32 base g = Inr (if all_finite g then Fin 0 else NaN)"
    by (rule style_loss_f32_own_gram [OF g])
  moreover have "all_finite g \<and> nd_eq g target_gram \<longrightarrow> style_loss_f32 base target_gram = Inr (Fin 0)"
    using style_loss_f32_equal_gram [OF g] by blast
  ultimately show ?thesis using g by blast
qed

subsection \<open>The loss of a candidate\<close>

lemma style_loop_eq:
  "map style_layer_loss ps = map Inr ls \<Longrightarrow>
   style_loop w acc ps = Inr (foldl fl_add acc (map (fl_mul w) ls))"
proof (induction ps arbitrary: acc ls)
  case Nil
  then show ?case by simp
next
  case (Cons p ps)
  obtain t c where p: "p = (t, c)" by (cases p)
  from Cons.prems obtain l ls' where ls: "ls = l # ls'"
    and l: "style_layer_loss p = Inr l" and rest: "map style_layer_loss ps = map Inr ls'"
    by (cases ls) auto
  show ?case
    using l Cons.IH [OF rest]
    by (auto simp: p ls style_layer_loss_def split: sum.splits)
qed

lemma content_loop_eq:
  "map content_layer_loss ps = map Inr ls \<Longrightarrow>
   content_loop w acc ps = Inr (foldl fl_add acc (map (fl_mul w) ls))"
proof (induction ps arbitrary: acc ls)
  case Nil
  then show ?case by simp
next
  case (Cons p ps)
  obtain t c where p: "p = (t, c)" by (cases p)
  from Cons.prems obtain l ls' where ls: "ls = l # ls'"
    and l: "content_layer_loss p = Inr l" and rest: "map content_layer_loss ps = map Inr ls'"
    by (cases ls) auto
  show ?case
    using l Cons.IH [OF rest]
    by (auto simp: p ls content_layer_loss_def split: sum.splits)
qed

lemma weighted_step:
  "0 < n \<Longrightarrow> fl_add (fl_div_count a n) (fl_mul (Fin (1 / real n)) l) = fl_div_count (fl_add a l) n"
  by (cases a; cases l) (auto simp: field_simps)

lemma weighted_foldl:
  "0 < n \<Longrightarrow> foldl fl_add (fl_div_count a n) (map (fl_mul (Fin (1 / real n))) ls)
     = fl_div_count (foldl fl_add a ls) n"
proof (induction ls arbitrary: a)
  case Nil
  then show ?case by simp
next
  case (Cons l ls)
  show ?case using Cons.IH [OF Cons.prems, of "fl_add a l"] weighted_step [OF Cons.prems, of a l]
    by simp
qed

lemma weighted_sum_average:
  assumes "0 < length ls"
  shows "foldl fl_add (Fin 0) (map (fl_mul (Fin (1 / real (length ls)))) ls) = fl_average ls"
proof -
  have "fl_div_count (Fin 0) (length ls) = Fin 0" using assms by simp
  then show ?thesis
    using weighted_foldl [OF assms, of "Fin 0" ls] by (simp add: fl_average_def fl_sum_def)
qed

lemma compute_loss_eq:
  assumes "net candidate = Inr model_outputs"
    and "0 < num_style_layers self" and "0 < num_content_layers self"
    and "length target_grams = num_style_layers self"
    and "length target_contents = num_content_layers self"
    and "length model_outputs = num_style_layers self + num_content_layers self"
    and "map style_layer_loss
           (zip target_grams (take (num_style_layers self) model_outputs))
         = map Inr style_losses"
    and "map content_layer_loss
           (zip target_contents (drop (num_style_layers self) model_outputs))
         = map Inr content_losses"
  shows "length style_losses = num_style_layers self
     \<and> length content_losses = num_content_layers self
     \<and> compute_loss self net (style_weight, content_weight) candidate
          target_grams target_contents
        = Inr (fl_add (fl_mul (fl_average style_losses) style_weight)
                      (fl_mul (fl_average content_losses) content_weight),
               fl_mul (fl_average style_losses) style_weight,
               fl_mul (fl_average content_losses) content_weight)"
proof -
  have ls: "length style_losses = num_style_layers self"
    using arg_cong [OF assms(7), of length] assms(4,6) by simp
  have lc: "length content_losses = num_content_layers self"
    using arg_cong [OF assms(8), of length] assms(5,6) by simp
  have s: "style_loop (Fin (1 / real (num_style_layers self))) (Fin 0)
             (zip target_grams (take (num_style_layers self) model_outputs))
           = Inr (fl_average style_losses)"
    using style_loop_eq [OF assms(7)] weighted_sum_average [of style_losses] assms(2) ls
    by simp
  have c: "content_loop (Fin (1 / real (num_content_layers self))) (Fin 0)
             (zip target_contents (drop (num_style_layers self) model_outputs))
           = Inr (fl_average content_losses)"
    using content_loop_eq [OF assms(8)] weighted_sum_average [of content_losses] assms(3) lc
    by simp
  show ?thesis
    using assms(1,2,3) ls lc by (simp add: compute_loss_def Let_def s c)
qed

text \<open>
  C6. When the model returns one output for every style and content layer, there is one
  target for every layer and no loss of a layer raises, \<open>compute_loss\<close> returns the
  triple of total, style and content component: the style component is the average of
  the style losses of all style layers times \<open>style_weight\<close>, the content component
  the average of the content losses of all content layers times \<open>content_weight\<close>, and
  the total is their sum.
\<close>

theorem compute_loss_triple:
  assumes "net candidate = Inr model_outputs"
    and "0 < num_style_layers self" and "0 < num_content_layers self"
    and "length target_grams = num_style_layers self"
    and "length target_contents = num_content_layers self"
    and "length model_outputs = num_style_layers self + num_content_layers self"
    and "map style_layer_loss
           (zip target_grams (take (num_style_layers self) model_outputs))
         = map Inr style_losses"
    and "map content_layer_loss
           (zip target_contents (drop (num_style_layers self) model_outputs))
         = map Inr content_losses"
  shows "length style_losses = num_style_layers self
     \<and> length content_losses = num_content_layers self
     \<and> compute_loss self net (style_weight, content_weight) candidate
          target_grams target_contents
        = Inr (fl_add (fl_mul (fl_average style_losses) style_weight)
                      (fl_mul (fl_average content_losses) content_weight),
               fl_mul (fl_average style_losses) style_weight,
               fl_mul (fl_average content_losses) content_weight)"
  using assms by (rule compute_loss_eq)

subsection \<open>One iteration\<close>

lemma iteration_step_Inr:
  assumes "iteration_step b di lo hi s i = Inr s'"
  shows "\<exists>loss ss cs opt' vals clipped.
      compute_grads b ((self_obj s)\<lparr>cur_iter := i\<rparr>) (args s)
        = Inr (tape_gradient b (args s), loss, ss, cs)
    \<and> adam_step b (opt s) (tape_gradient b (args s)) (init_image (args s)) = (opt', vals)
    \<and> clip_by_value ((init_image (args s))\<lparr>elems := vals\<rparr>) lo hi = Inr clipped
    \<and> shape clipped = shape (init_image (args s))
    \<and> args s' = (args s)\<lparr>init_image := clipped\<lparr>dtype := Float32\<rparr>\<rparr>
    \<and> opt s' = opt'
    \<and> self_obj s' = (self_obj s)\<lparr>cur_iter := i\<rparr>
    \<and> (if fl_less loss (best_loss s)
        then best_loss s' = loss
           \<and> (\<exists>img. deprocess_img (clipped\<lparr>dtype := Float32\<rparr>) = Inr img \<and> best_img s' = Some img)
        else best_loss s' = best_loss s \<and> best_img s' = best_img s)"
  using assms
  unfolding iteration_step_def Let_def
  by (auto simp: compute_grads_def split: sum.splits prod.splits if_splits)

lemma bshape_rev_Nil2: "bshape_rev xs [] = Some xs"
  by (cases xs) auto

lemma snoc3_last: "butlast s @ [3] = s \<Longrightarrow> last s = (3::nat)"
  by (metis last_snoc)

lemma broadcast_shapes_3:
  "broadcast_shapes sh [3] =
     (if sh = [] then Some [3]
      else if last sh = 3 then Some sh
      else if last sh = 1 then Some (butlast sh @ [3])
      else None)"
proof (cases sh rule: rev_cases)
  case Nil
  then show ?thesis by (simp add: broadcast_shapes_def)
next
  case (snoc ys y)
  then show ?thesis by (auto simp: broadcast_shapes_def bshape_rev_Nil2)
qed

lemma valid_index_length: "valid_index sh idx \<Longrightarrow> length idx = length sh"
  by (simp add: valid_index_def list_all2_lengthD)

lemma valid_index_last:
  "valid_index sh idx \<Longrightarrow> sh \<noteq> [] \<Longrightarrow> last idx < last sh \<and> idx \<noteq> []"
proof -
  assume v: "valid_index sh idx" and n: "sh \<noteq> []"
  then have l: "length idx = length sh" by (simp add: valid_index_length)
  with n have i: "idx \<noteq> []" by auto
  have "length idx - 1 < length idx" using i by simp
  then have "idx ! (length idx - 1) < sh ! (length idx - 1)"
    using v unfolding valid_index_def by (rule list_all2_nthD [rotated])
  then show ?thesis using i n l by (simp add: last_conv_nth)
qed

lemma bidx_vector: "idx \<noteq> [] \<Longrightarrow> bidx [3] idx = [last idx]"
proof -
  assume "idx \<noteq> []"
  then have "drop (length idx - Suc 0) idx = [last idx]"
    by (induction idx) (auto simp: drop_Cons')
  then show ?thesis by (simp add: bidx_def)
qed

lemma clip_by_value_means:
  assumes "clip_by_value t (min_vals_of norm_means) (max_vals_of norm_means) = Inr clipped"
    and "shape clipped = shape t"
  shows "shape t \<noteq> [] \<and> last (shape t) = 3
     \<and> (\<forall>idx. valid_index (shape t) idx \<longrightarrow>
           last idx < 3
           \<and> elems clipped idx
               = fl_clip (Fin (- (norm_means ! last idx))) (Fin (255 - norm_means ! last idx))
                   (elems t idx))"
proof -
  have l3: "length norm_means = 3" by (simp add: norm_means_def)
  have cs: "shape clipped =
      (if shape t = [] then [3] else if last (shape t) = 3 then shape t
       else butlast (shape t) @ [3])"
    using assms(1)
    by (auto simp: clip_by_value_def min_vals_of_def max_vals_of_def l3 broadcast_shapes_3
        split: if_splits option.splits)
  have sh: "shape t \<noteq> [] \<and> last (shape t) = 3"
  proof (cases "shape t = []")
    case True
    then show ?thesis using cs assms(2) by simp
  next
    case False
    show ?thesis
    proof (cases "last (shape t) = 3")
      case True
      then show ?thesis using False by simp
    next
      case n3: False
      then have "butlast (shape t) @ [3] = shape t" using cs assms(2) False by simp
      then show ?thesis using n3 snoc3_last by blast
    qed
  qed
  have c: "clipped = \<lparr>shape = shape t, dtype = dtype t,
        elems = (\<lambda>idx. fl_clip (elems (min_vals_of norm_means) (bidx [3] idx))
                           (elems (max_vals_of norm_means) (bidx [3] idx))
                           (elems t (bidx (shape t) idx)))\<rparr>"
    using assms(1) sh
    by (auto simp: clip_by_value_def min_vals_of_def max_vals_of_def l3 broadcast_shapes_3
        split: if_splits option.splits)
  show ?thesis
  proof (intro conjI allI impI)
    show "shape t \<noteq> []" using sh by simp
    show "last (shape t) = 3" using sh by simp
  next
    fix idx assume v: "valid_index (shape t) idx"
    then have li: "last idx < 3" and ne: "idx \<noteq> []"
      using valid_index_last [OF v] sh by auto
    show "last idx < 3" by (rule li)
    show "elems clipped idx
               = fl_clip (Fin (- (norm_means ! last idx))) (Fin (255 - norm_means ! last idx))
                   (elems t idx)"
      by (simp add: c bidx_valid [OF v] bidx_vector [OF ne] min_vals_of_def max_vals_of_def)
  qed
qed

lemma fl_clip_range:
  "lo \<le> hi \<Longrightarrow> v \<noteq> NaN \<Longrightarrow>
   fl_le (Fin lo) (fl_clip (Fin lo) (Fin hi) v) \<and> fl_le (fl_clip (Fin lo) (Fin hi) v) (Fin hi)"
  by (cases v) (auto simp: fl_clip_def)

lemma fl_clip_nan: "fl_clip (Fin lo) (Fin hi) v = NaN \<longleftrightarrow> v = NaN"
  by (cases v) (auto simp: fl_clip_def)

lemma norm_means_range: "c < 3 \<Longrightarrow> - (norm_means ! c) \<le> 255 - norm_means ! c"
  by simp

subsection \<open>Shapes kept by the loop\<close>

lemma load_result:
  assumes "fst (load_and_process_img b self p w) = Inr t"
  shows "\<exists>img img'. files b p = Some img
      \<and> resize b img (py_round (real (width img) * (real_of_int (max_dim self) / real (max (width img) (height img)))),
                      py_round (real (height img) * (real_of_int (max_dim self) / real (max (width img) (height img))))) = Inr img'
      \<and> preprocess_input (expand_dims0 (img_to_array img')) = Inr t
      \<and> snd (load_and_process_img b self p w) = w @ [p]"
  using assms
  by (auto simp: load_and_process_img_def Let_def split: option.splits if_splits sum.splits)

lemma load_shape:
  assumes "fst (load_and_process_img b self p w) = Inr t"
  shows "\<exists>H W. shape t = [1, H, W, 3]"
proof -
  from load_result [OF assms] obtain img' where "preprocess_input (expand_dims0 (img_to_array img')) = Inr t"
    by blast
  then show ?thesis unfolding preprocess_image_array by auto
qed

lemma load_fst_indep:
  "fst (load_and_process_img b self p w) = fst (load_and_process_img b self p w')"
  by (simp add: load_and_process_img_def Let_def split: option.splits)

lemma load_snd:
  "snd (load_and_process_img b self p w) = (if files b p = None then w else w @ [p])"
  by (simp add: load_and_process_img_def Let_def split: option.splits)

lemma norm_means_length: "length norm_means = 3"
  by (simp add: norm_means_def)

lemma clip_ok:
  assumes "shape t = [1, H, W, 3]"
  shows "\<exists>c. clip_by_value t (min_vals_of norm_means) (max_vals_of norm_means) = Inr c
     \<and> shape c = [1, H, W, 3]"
  using assms
  by (simp add: clip_by_value_def min_vals_of_def max_vals_of_def norm_means_length broadcast_shapes_3)

lemma deprocess_ok:
  assumes "shape t = [1, H, W, 3]"
  shows "\<exists>y. deprocess_img t = Inr y \<and> shape y = [H, W, 3] \<and> dtype y = UInt8"
  using assms
  by (simp add: deprocess_img_def squeeze0_def add_channel_def clip_to_uint8_def reverse_channels_def)

lemma map_Inr_ex:
  "(\<And>p. p \<in> set ps \<Longrightarrow> \<exists>l. f p = Inr l) \<Longrightarrow> \<exists>ls. map f ps = map Inr ls"
proof (induction ps)
  case Nil
  show ?case by simp
next
  case (Cons p ps)
  from Cons.prems [of p] obtain l where l: "f p = Inr l" by auto
  from Cons.IH Cons.prems obtain ls where "map f ps = map Inr ls" by auto
  with l have "map f (p # ps) = map Inr (l # ls)" by simp
  then show ?case by blast
qed

lemma gram_matrix_ok:
  assumes "shape x = [h, w, c]" and "0 < c"
  shows "\<exists>g. gram_matrix x = Inr g \<and> shape g = [c, c]"
  using assms by (simp add: gram_matrix_def Let_def)

lemma style_loss_ok:
  assumes "shape x = [h, w, c]" and "0 < c" and "shape t = [c, c]"
  shows "\<exists>l. style_loss x t = Inr l"
proof -
  from gram_matrix_ok [OF assms(1,2)] obtain g where "gram_matrix x = Inr g" "shape g = [c, c]"
    by blast
  then show ?thesis using style_loss_eq [OF _ _ assms(3)] by blast
qed

lemma content_loss_ok:
  assumes "shape x = shape t"
  shows "\<exists>l. content_loss x t = Inr l"
  using assms by (simp add: content_loss_def tf_sub_def broadcast_shapes_same)

lemma index0_layer_output:
  assumes "shape x = [1, H, W, 3]"
  shows "\<exists>c. index0 (layer_output b name x) = Inr c
     \<and> shape c = [fst (layer_hw b name H W), snd (layer_hw b name H W), layer_channels b name]"
  using assms by (simp add: index0_def layer_output_def)

lemma get_model_ok:
  assumes "shape x = [1, H, W, 3]"
  shows "get_model b self x
     = Inr (map (\<lambda>name. layer_output b name x) (style_layers self)
            @ map (\<lambda>name. layer_output b name x) (content_layers self))"
  using assms by (simp add: get_model_def Let_def)

lemma style_layer_loss_ok:
  assumes "shape x = [1, H, W, 3]" and "0 < layer_channels b name"
    and "shape g = [layer_channels b name, layer_channels b name]"
  shows "\<exists>l. style_layer_loss (g, layer_output b name x) = Inr l"
proof -
  from index0_layer_output [OF assms(1), of b name] obtain c where
    c: "index0 (layer_output b name x) = Inr c"
    and sc: "shape c = [fst (layer_hw b name H W), snd (layer_hw b name H W), layer_channels b name]"
    by blast
  from style_loss_ok [OF sc assms(2,3)] obtain l where "style_loss c g = Inr l" by blast
  then show ?thesis by (simp add: style_layer_loss_def c)
qed

lemma content_layer_loss_ok:
  assumes "shape x = [1, H, W, 3]"
    and "shape t = [fst (layer_hw b name H W), snd (layer_hw b name H W), layer_channels b name]"
  shows "\<exists>l. content_layer_loss (t, layer_output b name x) = Inr l"
proof -
  from index0_layer_output [OF assms(1), of b name] obtain c where
    c: "index0 (layer_output b name x) = Inr c"
    and sc: "shape c = [fst (layer_hw b name H W), snd (layer_hw b name H W), layer_channels b name]"
    by blast
  have "shape c = shape t" using sc assms(2) by simp
  from content_loss_ok [OF this] obtain l where "content_loss c t = Inr l" by blast
  then show ?thesis by (simp add: content_layer_loss_def c)
qed

lemma compute_loss_ok:
  assumes ok: "layers_ok b self"
    and x: "shape x = [1, H, W, 3]"
    and g: "list_all2 (\<lambda>g name. shape g = [layer_channels b name, layer_channels b name])
              grams (style_layers self)"
    and c: "list_all2 (\<lambda>c name. shape c = [fst (layer_hw b name H W), snd (layer_hw b name H W),
                                         layer_channels b name])
              cfeats (content_layers self)"
  shows "\<exists>l ss cs. compute_loss (self\<lparr>cur_iter := k\<rparr>) (get_model b self) wts x grams cfeats
           = Inr (l, ss, cs)"
proof -
  let ?self = "self\<lparr>cur_iter := k\<rparr>"
  let ?so = "map (\<lambda>name. layer_output b name x) (style_layers self)"
  let ?co = "map (\<lambda>name. layer_output b name x) (content_layers self)"
  have nS: "num_style_layers ?self = length (style_layers self)"
    and nC: "num_content_layers ?self = length (content_layers self)"
    and pS: "0 < num_style_layers ?self" and pC: "0 < num_content_layers ?self"
    using ok by (simp_all add: layers_ok_def)
  have m: "get_model b self x = Inr (?so @ ?co)" by (rule get_model_ok [OF x])
  have lg: "length grams = num_style_layers ?self"
    using g nS by (simp add: list_all2_lengthD)
  have lc: "length cfeats = num_content_layers ?self"
    using c nC by (simp add: list_all2_lengthD)
  have lo: "length (?so @ ?co) = num_style_layers ?self + num_content_layers ?self"
    using nS nC by simp
  have tk: "take (num_style_layers ?self) (?so @ ?co) = ?so" using nS by simp
  have dr: "drop (num_style_layers ?self) (?so @ ?co) = ?co" using nS by simp
  have "\<exists>sl. map style_layer_loss (zip grams ?so) = map Inr sl"
  proof (rule map_Inr_ex)
    fix p assume "p \<in> set (zip grams ?so)"
    then obtain i where i: "i < length grams" "i < length (style_layers self)"
      and p: "p = (grams ! i, layer_output b (style_layers self ! i) x)"
      by (auto simp: set_zip)
    have ch: "0 < layer_channels b (style_layers self ! i)"
      using ok i(2) by (simp add: layers_ok_def list_all_length)
    have sg: "shape (grams ! i) = [layer_channels b (style_layers self ! i),
                                   layer_channels b (style_layers self ! i)]"
      using list_all2_nthD [OF g i(1)] by simp
    show "\<exists>l. style_layer_loss p = Inr l"
      unfolding p by (rule style_layer_loss_ok [OF x ch sg])
  qed
  then obtain sl where sl: "map style_layer_loss (zip grams (take (num_style_layers ?self) (?so @ ?co))) = map Inr sl"
    unfolding tk by blast
  have "\<exists>cl. map content_layer_loss (zip cfeats ?co) = map Inr cl"
  proof (rule map_Inr_ex)
    fix p assume "p \<in> set (zip cfeats ?co)"
    then obtain i where i: "i < length cfeats" "i < length (content_layers self)"
      and p: "p = (cfeats ! i, layer_output b (content_layers self ! i) x)"
      by (auto simp: set_zip)
    show "\<exists>l. content_layer_loss p = Inr l"
      unfolding p using list_all2_nthD [OF c i(1)] by (intro content_layer_loss_ok [OF x]) simp
  qed
  then obtain cl where cl: "map content_layer_loss (zip cfeats (drop (num_style_layers ?self) (?so @ ?co))) = map Inr cl"
    unfolding dr by blast
  obtain sw cw where w: "wts = (sw, cw)" by (cases wts)
  show ?thesis
    using compute_loss_eq [of "get_model b self" x "?so @ ?co" ?self grams cfeats sl cl sw cw,
        OF m pS pC lg lc lo sl cl]
    unfolding w by blast
qed

lemma step_defined:
  assumes ok: "layers_ok b self" and wf: "wf_state b self H W s" and di: "di \<noteq> 0"
  shows "\<exists>s'. iteration_step b di (min_vals_of norm_means) (max_vals_of norm_means) s i = Inr s'"
proof -
  from wf obtain k where so: "self_obj s = self\<lparr>cur_iter := k\<rparr>"
    and x: "shape (init_image (args s)) = [1, H, W, 3]"
    and m: "model (args s) = get_model b self"
    and g: "list_all2 (\<lambda>g name. shape g = [layer_channels b name, layer_channels b name])
              (gram_style_features (args s)) (style_layers self)"
    and c: "list_all2 (\<lambda>c name. shape c = [fst (layer_hw b name H W), snd (layer_hw b name H W),
                                         layer_channels b name])
              (content_features (args s)) (content_layers self)"
    by (auto simp: wf_state_def)
  have so': "(self_obj s)\<lparr>cur_iter := i\<rparr> = self\<lparr>cur_iter := i\<rparr>" by (simp add: so)
  from compute_loss_ok [OF ok x g c, of i "loss_weights (args s)"] obtain l ss cs where
    cl: "compute_loss (self\<lparr>cur_iter := i\<rparr>) (get_model b self) (loss_weights (args s))
           (init_image (args s)) (gram_style_features (args s)) (content_features (args s))
         = Inr (l, ss, cs)" by blast
  define grads where "grads = tape_gradient b (args s)"
  have cg: "compute_grads b ((self_obj s)\<lparr>cur_iter := i\<rparr>) (args s) = Inr (grads, l, ss, cs)"
    by (simp add: compute_grads_def so' m cl grads_def)
  obtain opt' vals where ad: "adam_step b (opt s) grads (init_image (args s)) = (opt', vals)"
    by (cases "adam_step b (opt s) grads (init_image (args s))")
  have "shape ((init_image (args s))\<lparr>elems := vals\<rparr>) = [1, H, W, 3]" using x by simp
  from clip_ok [OF this] obtain clipped where
    cp: "clip_by_value ((init_image (args s))\<lparr>elems := vals\<rparr>) (min_vals_of norm_means)
           (max_vals_of norm_means) = Inr clipped"
    and sc: "shape clipped = [1, H, W, 3]" by blast
  have "shape (clipped\<lparr>dtype := Float32\<rparr>) = [1, H, W, 3]" using sc by simp
  from deprocess_ok [OF this] obtain y where
    dp: "deprocess_img (clipped\<lparr>dtype := Float32\<rparr>) = Inr y" by blast
  show ?thesis
    unfolding iteration_step_def Let_def
    using di by (simp add: cg ad cp sc x dp)
qed

lemma step_wf:
  assumes wf: "wf_state b self H W s"
    and st: "iteration_step b di lo hi s i = Inr s'"
  shows "wf_state b self H W s'"
proof -
  from iteration_step_Inr [OF st] obtain clipped where
    sc: "shape clipped = shape (init_image (args s))"
    and a: "args s' = (args s)\<lparr>init_image := clipped\<lparr>dtype := Float32\<rparr>\<rparr>"
    and so: "self_obj s' = (self_obj s)\<lparr>cur_iter := i\<rparr>"
    by blast
  from wf obtain k where k: "self_obj s = self\<lparr>cur_iter := k\<rparr>" by (auto simp: wf_state_def)
  have "self_obj s' = self\<lparr>cur_iter := i\<rparr>" by (simp add: so k)
  then have "\<exists>k. self_obj s' = self\<lparr>cur_iter := k\<rparr>" by blast
  then show ?thesis using wf by (simp add: wf_state_def a sc)
qed

lemma run_loop_defined:
  assumes ok: "layers_ok b self" and di: "di \<noteq> 0"
  shows "wf_state b self H W s \<Longrightarrow>
    \<exists>s'. run_loop b di (min_vals_of norm_means) (max_vals_of norm_means) s is = Inr s'
        \<and> wf_state b self H W s'"
proof (induction "is" arbitrary: s)
  case Nil
  then show ?case by simp
next
  case (Cons i rest)
  from step_defined [OF ok Cons.prems di, of i] obtain s1 where
    s1: "iteration_step b di (min_vals_of norm_means) (max_vals_of norm_means) s i = Inr s1"
    by blast
  have "wf_state b self H W s1" by (rule step_wf [OF Cons.prems s1])
  from Cons.IH [OF this] show ?case by (simp add: s1)
qed

lemma run_loop_append:
  "run_loop b di lo hi s (xs @ ys) =
     (case run_loop b di lo hi s xs of Inl e \<Rightarrow> Inl e | Inr s1 \<Rightarrow> run_loop b di lo hi s1 ys)"
  by (induction xs arbitrary: s) (auto split: sum.splits)

lemma map_err_map:
  "(\<And>n. n \<in> set ns \<Longrightarrow> \<exists>y. f (g n) = Inr y \<and> Q y n)
   \<Longrightarrow> \<exists>ys. map_err f (map g ns) = Inr ys \<and> list_all2 Q ys ns"
proof (induction ns)
  case Nil
  show ?case by simp
next
  case (Cons n ns)
  from Cons.prems [of n] obtain y where y: "f (g n) = Inr y" "Q y n" by auto
  from Cons.IH Cons.prems obtain ys where ys: "map_err f (map g ns) = Inr ys" "list_all2 Q ys ns"
    by auto
  have "map_err f (map g (n # ns)) = Inr (y # ys) \<and> list_all2 Q (y # ys) (n # ns)"
    using y ys by simp
  then show ?case by blast
qed

lemma map_err_rel:
  "list_all2 Q ys ns \<Longrightarrow> (\<And>y n. Q y n \<Longrightarrow> n \<in> set ns \<Longrightarrow> \<exists>z. f y = Inr z \<and> R z n)
   \<Longrightarrow> \<exists>zs. map_err f ys = Inr zs \<and> list_all2 R zs ns"
proof (induction ys ns rule: list_all2_induct)
  case Nil
  show ?case by simp
next
  case (Cons y ys n ns)
  from Cons.prems [of y n] Cons.hyps(1) obtain z where z: "f y = Inr z" "R z n" by auto
  from Cons.IH Cons.prems obtain zs where zs: "map_err f ys = Inr zs" "list_all2 R zs ns"
    by (metis list.set_intros(2))
  have "map_err f (y # ys) = Inr (z # zs) \<and> list_all2 R (z # zs) (n # ns)"
    using z zs by simp
  then show ?case by blast
qed

lemma load_pair:
  assumes "fst (load_and_process_img b self p w0) = Inr t"
  shows "load_and_process_img b self p w = (Inr t, w @ [p])"
proof -
  have f: "fst (load_and_process_img b self p w) = Inr t"
    using assms load_fst_indep [of b self p w w0] by simp
  from load_result [OF f] have "snd (load_and_process_img b self p w) = w @ [p]" by blast
  with f show ?thesis by (simp add: prod_eq_iff)
qed

lemma run_setup_ok:
  assumes ok: "layers_ok b self"
    and lc: "fst (load_and_process_img b self (content_path self) w0) = Inr ci"
    and ls: "fst (load_and_process_img b self (style_path self) w1) = Inr si"
  shows "\<exists>s0 H W. run_setup b self cw sw w
        = (Inr s0, w @ [content_path self, style_path self, content_path self])
     \<and> wf_state b self H W s0 \<and> shape ci = [1, H, W, 3]
     \<and> init_image (args s0) = ci\<lparr>dtype := Float32\<rparr>
     \<and> loss_weights (args s0) = (sw, cw)
     \<and> best_loss s0 = PInf \<and> best_img s0 = None \<and> opt s0 = adam_init b \<and> self_obj s0 = self"
proof -
  from load_shape [OF lc] obtain H W where sci: "shape ci = [1, H, W, 3]" by blast
  from load_shape [OF ls] obtain Hs Ws where ssi: "shape si = [1, Hs, Ws, 3]" by blast
  have nS: "num_style_layers self = length (style_layers self)"
    using ok by (simp add: layers_ok_def)
  let ?so = "\<lambda>x. map (\<lambda>name. layer_output b name x) (style_layers self)"
  let ?co = "\<lambda>x. map (\<lambda>name. layer_output b name x) (content_layers self)"
  have ms: "get_model b self si = Inr (?so si @ ?co si)" by (rule get_model_ok [OF ssi])
  have mc: "get_model b self ci = Inr (?so ci @ ?co ci)" by (rule get_model_ok [OF sci])
  have "\<exists>ys. map_err index0 (?so si) = Inr ys
      \<and> list_all2 (\<lambda>y name. shape y = [fst (layer_hw b name Hs Ws), snd (layer_hw b name Hs Ws),
                                        layer_channels b name]) ys (style_layers self)"
    by (rule map_err_map) (use index0_layer_output [OF ssi] in blast)
  then obtain sf where sf: "map_err index0 (?so si) = Inr sf"
    and sfr: "list_all2 (\<lambda>y name. shape y = [fst (layer_hw b name Hs Ws), snd (layer_hw b name Hs Ws),
                                        layer_channels b name]) sf (style_layers self)"
    by blast
  have "\<exists>ys. map_err index0 (?co ci) = Inr ys
      \<and> list_all2 (\<lambda>y name. shape y = [fst (layer_hw b name H W), snd (layer_hw b name H W),
                                        layer_channels b name]) ys (content_layers self)"
    by (rule map_err_map) (use index0_layer_output [OF sci] in blast)
  then obtain cf where cf: "map_err index0 (?co ci) = Inr cf"
    and cfr: "list_all2 (\<lambda>y name. shape y = [fst (layer_hw b name H W), snd (layer_hw b name H W),
                                        layer_channels b name]) cf (content_layers self)"
    by blast
  have "\<exists>zs. map_err gram_matrix sf = Inr zs
      \<and> list_all2 (\<lambda>g name. shape g = [layer_channels b name, layer_channels b name]) zs
           (style_layers self)"
  proof (rule map_err_rel [OF sfr])
    fix y :: ndarray and n
    assume y: "shape y = [fst (layer_hw b n Hs Ws), snd (layer_hw b n Hs Ws), layer_channels b n]"
      and n: "n \<in> set (style_layers self)"
    have "0 < layer_channels b n" using ok n by (simp add: layers_ok_def list_all_iff)
    from gram_matrix_ok [OF y this]
    show "\<exists>z. gram_matrix y = Inr z \<and> shape z = [layer_channels b n, layer_channels b n]" .
  qed
  then obtain gs where gs: "map_err gram_matrix sf = Inr gs"
    and gsr: "list_all2 (\<lambda>g name. shape g = [layer_channels b name, layer_channels b name]) gs
           (style_layers self)" by blast
  have rgd: "run_gradient_descent b self (get_model b self) (content_path self) (style_path self) w
      = (Inr (sf, cf), w @ [content_path self, style_path self])"
    by (simp add: run_gradient_descent_def load_pair [OF lc] load_pair [OF ls] ms mc nS sf cf)
  define s0 :: "'a loop_state" where "s0 =
     \<lparr>self_obj = self,
       args = \<lparr>model = get_model b self, loss_weights = (sw, cw),
               init_image = ci\<lparr>dtype := Float32\<rparr>,
               gram_style_features = gs, content_features = cf\<rparr>,
       opt = adam_init b, best_loss = PInf, best_img = None, imgs = []\<rparr>"
  have rs: "run_setup b self cw sw w
        = (Inr s0, w @ [content_path self, style_path self, content_path self])"
    by (simp add: run_setup_def Let_def rgd gs load_pair [OF lc] s0_def)
  have "self = self\<lparr>cur_iter := cur_iter self\<rparr>" by simp
  then have ex: "\<exists>k. self = self\<lparr>cur_iter := k\<rparr>" by (rule exI)
  have wf: "wf_state b self H W s0"
    using ex by (simp add: wf_state_def s0_def sci gsr cfr)
  show ?thesis
    using rs wf sci by (intro exI [of _ s0] exI [of _ H] exI [of _ W]) (simp add: s0_def)
qed

subsection \<open>Best loss and best image\<close>

lemma load_succeedsD:
  "load_succeeds b self p \<Longrightarrow> \<exists>t. fst (load_and_process_img b self p w) = Inr t"
  using load_fst_indep [of b self p w "[]"]
  by (auto simp: load_succeeds_def split: sum.splits)

lemma run_eq:
  "run_style_transfer b self cw sw [] =
     (case state_after b self cw sw (py_range (iteration self)) of
        Inl e \<Rightarrow> Inl e
      | Inr s \<Rightarrow> Inr (best_img s),
      snd (run_setup b self cw sw []))"
  by (simp add: run_style_transfer_def state_after_def Let_def split: prod.splits sum.splits)

lemma state_after_Nil:
  "state_after b self cw sw [] = fst (run_setup b self cw sw [])"
  by (simp add: state_after_def split: sum.splits)

lemma state_after_snoc:
  "state_after b self cw sw (pre @ [i]) =
     (case state_after b self cw sw pre of
        Inl e \<Rightarrow> Inl e
      | Inr s \<Rightarrow> iteration_step b (real_of_int (iteration self) / real_of_int (2 * 5))
                   (min_vals_of norm_means) (max_vals_of norm_means) s i)"
  by (simp add: state_after_def run_loop_append split: sum.splits)

lemma state_after_defined:
  assumes ok: "layers_ok b self"
    and lc: "load_succeeds b self (content_path self)"
    and ls: "load_succeeds b self (style_path self)"
    and it: "done = [] \<or> iteration self \<noteq> 0"
  shows "\<exists>s ci H W. state_after b self cw sw done = Inr s \<and> wf_state b self H W s
      \<and> fst (load_and_process_img b self (content_path self) []) = Inr ci
      \<and> shape ci = [1, H, W, 3]"
proof -
  from load_succeedsD [OF lc] obtain ci where
    ci: "fst (load_and_process_img b self (content_path self) []) = Inr ci" by blast
  from load_succeedsD [OF ls] obtain si where
    si: "fst (load_and_process_img b self (style_path self) []) = Inr si" by blast
  from run_setup_ok [OF ok ci si, of cw sw "[]"] obtain s0 H W where
    rs: "fst (run_setup b self cw sw []) = Inr s0" and wf: "wf_state b self H W s0"
    and sh: "shape ci = [1, H, W, 3]"
    by auto
  show ?thesis
  proof (cases "done = []")
    case True
    then show ?thesis using rs wf ci sh by (auto simp: state_after_def)
  next
    case False
    with it have "real_of_int (iteration self) / real_of_int (2 * 5) \<noteq> 0" by simp
    from run_loop_defined [OF ok this wf, of "done"] obtain s where
      "run_loop b (real_of_int (iteration self) / real_of_int (2 * 5))
         (min_vals_of norm_means) (max_vals_of norm_means) s0 done = Inr s"
      "wf_state b self H W s" by blast
    then show ?thesis using rs ci sh by (auto simp: state_after_def)
  qed
qed

lemma fl_less_le: "fl_less a b \<Longrightarrow> fl_le a b"
  by (cases a; cases b) auto

lemma fl_less_not_nan: "fl_less a b \<Longrightarrow> a \<noteq> NaN"
  by (cases a; cases b) auto

lemma fl_le_refl: "a \<noteq> NaN \<Longrightarrow> fl_le a a"
  by (cases a) auto

lemma step_best:
  assumes "iteration_step b di lo hi s i = Inr s'"
  shows "\<exists>l. iteration_loss b s i = Inr l
     \<and> (if fl_less l (best_loss s) then best_loss s' = l \<and> (\<exists>img. best_img s' = Some img)
        else best_loss s' = best_loss s \<and> best_img s' = best_img s)"
  using iteration_step_Inr [OF assms]
  by (auto simp: iteration_loss_def split: if_splits)

lemma step_best_not_nan:
  assumes "iteration_step b di lo hi s i = Inr s'" and "best_loss s \<noteq> NaN"
  shows "best_loss s' \<noteq> NaN"
  using step_best [OF assms(1)] assms(2) fl_less_not_nan
  by (auto split: if_splits)

lemma run_loop_best_not_nan:
  "run_loop b di lo hi s is = Inr s' \<Longrightarrow> best_loss s \<noteq> NaN \<Longrightarrow> best_loss s' \<noteq> NaN"
proof (induction "is" arbitrary: s)
  case Nil
  then show ?case by simp
next
  case (Cons i rest)
  from Cons.prems(1) obtain s1 where s1: "iteration_step b di lo hi s i = Inr s1"
    and r: "run_loop b di lo hi s1 rest = Inr s'"
    by (auto split: sum.splits)
  show ?case by (rule Cons.IH [OF r step_best_not_nan [OF s1 Cons.prems(2)]])
qed

lemma run_setup_init:
  assumes "fst (run_setup b self cw sw w) = Inr s0"
  shows "best_loss s0 = PInf \<and> best_img s0 = None"
  using assms
  by (auto simp: run_setup_def Let_def split: prod.splits sum.splits)

lemma state_after_best_not_nan:
  assumes "state_after b self cw sw done = Inr s"
  shows "best_loss s \<noteq> NaN"
proof -
  from assms obtain s0 where s0: "fst (run_setup b self cw sw []) = Inr s0"
    and r: "run_loop b (real_of_int (iteration self) / real_of_int (2 * 5))
            (min_vals_of norm_means) (max_vals_of norm_means) s0 done = Inr s"
    by (auto simp: state_after_def split: sum.splits)
  have "best_loss s0 \<noteq> NaN" using run_setup_init [OF s0] by simp
  then show ?thesis by (rule run_loop_best_not_nan [OF r])
qed

text \<open>
  C3. A run starts with a best loss of plus infinity and no best image. In every
  iteration \<open>i\<close> of a run, reached after the iterations \<open>done\<close>, the best loss after
  the iteration is at most the best loss before it; when the total loss of the
  iteration is strictly below the best loss before it, the best loss becomes that loss
  and a best image is stored, and otherwise the best loss and the best image stay as
  they were.
\<close>

theorem best_loss_non_increasing:
  "(\<forall>s0. state_after b self content_weight style_weight [] = Inr s0
        \<longrightarrow> best_loss s0 = PInf \<and> best_img s0 = None)
   \<and> (\<forall>s'. state_after b self content_weight style_weight (done @ [i]) = Inr s' \<longrightarrow>
        (\<exists>s l. state_after b self content_weight style_weight done = Inr s
           \<and> iteration_loss b s i = Inr l
           \<and> fl_le (best_loss s') (best_loss s)
           \<and> (if fl_less l (best_loss s)
               then best_loss s' = l \<and> (\<exists>img. best_img s' = Some img)
               else best_loss s' = best_loss s \<and> best_img s' = best_img s)))"
proof (rule conjI)
  show "\<forall>s0. state_after b self content_weight style_weight [] = Inr s0
        \<longrightarrow> best_loss s0 = PInf \<and> best_img s0 = None"
    using run_setup_init [of b self content_weight style_weight "[]"]
    by (simp add: state_after_Nil)
next
  show "\<forall>s'. state_after b self content_weight style_weight (done @ [i]) = Inr s' \<longrightarrow>
        (\<exists>s l. state_after b self content_weight style_weight done = Inr s
           \<and> iteration_loss b s i = Inr l
           \<and> fl_le (best_loss s') (best_loss s)
           \<and> (if fl_less l (best_loss s)
               then best_loss s' = l \<and> (\<exists>img. best_img s' = Some img)
               else best_loss s' = best_loss s \<and> best_img s' = best_img s))"
  proof (intro allI impI)
    fix s' assume a: "state_after b self content_weight style_weight (done @ [i]) = Inr s'"
    then obtain s where s: "state_after b self content_weight style_weight done = Inr s"
      and st: "iteration_step b (real_of_int (iteration self) / real_of_int (2 * 5))
                   (min_vals_of norm_means) (max_vals_of norm_means) s i = Inr s'"
      by (auto simp: state_after_snoc split: sum.splits)
    from step_best [OF st] obtain l where l: "iteration_loss b s i = Inr l"
      and c: "if fl_less l (best_loss s) then best_loss s' = l \<and> (\<exists>img. best_img s' = Some img)
        else best_loss s' = best_loss s \<and> best_img s' = best_img s" by blast
    have nn: "best_loss s \<noteq> NaN" by (rule state_after_best_not_nan [OF s])
    have "fl_le (best_loss s') (best_loss s)"
    proof (cases "fl_less l (best_loss s)")
      case True
      then show ?thesis using c fl_less_le by simp
    next
      case False
      then show ?thesis using c fl_le_refl [OF nn] by simp
    qed
    then show "\<exists>s l. state_after b self content_weight style_weight done = Inr s
           \<and> iteration_loss b s i = Inr l
           \<and> fl_le (best_loss s') (best_loss s)
           \<and> (if fl_less l (best_loss s)
               then best_loss s' = l \<and> (\<exists>img. best_img s' = Some img)
               else best_loss s' = best_loss s \<and> best_img s' = best_img s)"
      using s l c by blast
  qed
qed

text \<open>
  C9. With an iteration count of zero, a usable network and two paths that load,
  \<open>run_style_transfer\<close> raises no error and returns no best image.
\<close>

theorem zero_iterations_return_none:
  assumes "layers_ok b self"
    and "load_succeeds b self (content_path self)"
    and "load_succeeds b self (style_path self)"
    and "iteration self = 0"
  shows "fst (run_style_transfer b self content_weight style_weight []) = Inr None"
proof -
  from state_after_defined [OF assms(1,2,3), of "[]" content_weight style_weight]
  obtain s0 where s0: "state_after b self content_weight style_weight [] = Inr s0" by auto
  have "best_img s0 = None"
    using s0 run_setup_init [of b self content_weight style_weight "[]" s0]
    by (simp add: state_after_Nil)
  then show ?thesis using s0 assms(4) by (simp add: run_eq py_range_def)
qed

subsection \<open>Opened paths\<close>

lemma load_cases:
  obtains e where "load_and_process_img b self p w = (Inl e, if files b p = None then w else w @ [p])"
  | t where "load_and_process_img b self p w = (Inr t, w @ [p])"
proof (cases "fst (load_and_process_img b self p w)")
  case (Inl e)
  then have "load_and_process_img b self p w = (Inl e, if files b p = None then w else w @ [p])"
    using load_snd [of b self p w] by (simp add: prod_eq_iff)
  then show ?thesis by (rule that(1))
next
  case (Inr t)
  then have "load_and_process_img b self p w = (Inr t, w @ [p])"
    by (rule load_pair)
  then show ?thesis by (rule that(2))
qed

lemma rgd_opened:
  assumes "run_gradient_descent b self m cp sp w = (Inr r, w')"
  shows "w' = w @ [cp, sp]"
proof (rule load_cases [of b self cp w])
  fix e assume "load_and_process_img b self cp w = (Inl e, if files b cp = None then w else w @ [cp])"
  then show ?thesis using assms by (simp add: run_gradient_descent_def)
next
  fix t assume c: "load_and_process_img b self cp w = (Inr t, w @ [cp])"
  show ?thesis
  proof (rule load_cases [of b self sp "w @ [cp]"])
    fix e assume "load_and_process_img b self sp (w @ [cp])
        = (Inl e, if files b sp = None then w @ [cp] else (w @ [cp]) @ [sp])"
    then show ?thesis using assms c by (simp add: run_gradient_descent_def)
  next
    fix t' assume "load_and_process_img b self sp (w @ [cp]) = (Inr t', (w @ [cp]) @ [sp])"
    then show ?thesis using assms c by (simp add: run_gradient_descent_def)
  qed
qed

lemma run_setup_opened:
  assumes "run_setup b self cw sw w = (Inr s0, w')"
  shows "w' = w @ [content_path self, style_path self, content_path self]"
proof (cases "run_gradient_descent b self (get_model b self) (content_path self) (style_path self) w")
  case (Pair r w1)
  show ?thesis
  proof (cases r)
    case (Inl e)
    then show ?thesis using assms Pair by (simp add: run_setup_def Let_def)
  next
    case (Inr fs)
    then have w1: "w1 = w @ [content_path self, style_path self]"
      using rgd_opened Pair by blast
    obtain sf cf where fs: "fs = (sf, cf)" by (cases fs)
    show ?thesis
    proof (cases "map_err gram_matrix sf")
      case (Inl e)
      then show ?thesis using assms Pair Inr fs by (simp add: run_setup_def Let_def)
    next
      case g: (Inr gs)
      show ?thesis
      proof (rule load_cases [of b self "content_path self" w1])
        fix e assume "load_and_process_img b self (content_path self) w1
            = (Inl e, if files b (content_path self) = None then w1 else w1 @ [content_path self])"
        then show ?thesis using assms Pair Inr fs g by (simp add: run_setup_def Let_def)
      next
        fix t assume "load_and_process_img b self (content_path self) w1
            = (Inr t, w1 @ [content_path self])"
        then show ?thesis using assms Pair Inr fs g w1 by (auto simp: run_setup_def Let_def)
      qed
    qed
  qed
qed

lemma run_opened:
  assumes "fst (run_style_transfer b self content_weight style_weight opened) = Inr r"
  shows "snd (run_style_transfer b self content_weight style_weight opened)
       = opened @ [content_path self, style_path self, content_path self]"
proof (cases "run_setup b self content_weight style_weight opened")
  case (Pair r0 w')
  show ?thesis
  proof (cases r0)
    case (Inl e)
    then show ?thesis using assms Pair by (simp add: run_style_transfer_def)
  next
    case (Inr s0)
    then have "w' = opened @ [content_path self, style_path self, content_path self]"
      using run_setup_opened Pair by blast
    then show ?thesis
      using Pair Inr by (simp add: run_style_transfer_def Let_def split: sum.splits)
  qed
qed

text \<open>
  C2, as amended. A call of \<open>run_style_transfer\<close> that returns has opened the content
  path, the style path and the content path again, in this order: the style image is
  loaded and preprocessed once, the content image twice (for its features, and for the
  initial value of the variable), all of it in the setup. The loop opens no file: its
  state has no list of opened paths.
\<close>

theorem paths_opened_by_run:
  assumes "fst (run_style_transfer b self content_weight style_weight opened) = Inr r"
  shows "snd (run_style_transfer b self content_weight style_weight opened)
       = opened @ [content_path self, style_path self, content_path self]"
  using assms by (rule run_opened)

subsection \<open>Runs that return an image, and runs that return none\<close>

lemma state_after_append:
  "state_after b self cw sw (xs @ ys) =
     (case state_after b self cw sw xs of
        Inl e \<Rightarrow> Inl e
      | Inr s \<Rightarrow> run_loop b (real_of_int (iteration self) / real_of_int (2 * 5))
                   (min_vals_of norm_means) (max_vals_of norm_means) s ys)"
  by (simp add: state_after_def run_loop_append split: sum.splits)

lemma step_best_some:
  assumes "iteration_step b di lo hi s i = Inr s'" and "best_img s \<noteq> None"
  shows "best_img s' \<noteq> None"
  using step_best [OF assms(1)] assms(2) by (auto split: if_splits)

lemma run_loop_best_some:
  "run_loop b di lo hi s is = Inr s' \<Longrightarrow> best_img s \<noteq> None \<Longrightarrow> best_img s' \<noteq> None"
proof (induction "is" arbitrary: s)
  case Nil
  then show ?case by simp
next
  case (Cons i rest)
  from Cons.prems(1) obtain s1 where s1: "iteration_step b di lo hi s i = Inr s1"
    and r: "run_loop b di lo hi s1 rest = Inr s'"
    by (auto split: sum.splits)
  show ?case by (rule Cons.IH [OF r step_best_some [OF s1 Cons.prems(2)]])
qed

lemma py_range_pos: "1 \<le> n \<Longrightarrow> py_range n = [0] @ map int [1..<nat n]"
proof -
  assume "1 \<le> n"
  then have "[0..<nat n] = 0 # [1..<nat n]" by (simp add: upt_conv_Cons)
  then show ?thesis by (simp add: py_range_def)
qed

lemma first_finite_some:
  assumes ok: "layers_ok b self"
    and lc: "load_succeeds b self (content_path self)"
    and ls: "load_succeeds b self (style_path self)"
    and it: "1 \<le> iteration self"
    and s0: "state_after b self cw sw [] = Inr s0"
    and l: "iteration_loss b s0 0 = Inr (Fin r)"
  shows "\<exists>img. fst (run_style_transfer b self cw sw []) = Inr (Some img)"
proof -
  have nz: "iteration self \<noteq> 0" using it by simp
  from state_after_defined [OF ok lc ls, of "[0]" cw sw] nz obtain s1 where
    s1: "state_after b self cw sw [0] = Inr s1" by auto
  have st: "iteration_step b (real_of_int (iteration self) / real_of_int (2 * 5))
                   (min_vals_of norm_means) (max_vals_of norm_means) s0 0 = Inr s1"
    using s1 s0 state_after_snoc [of b self cw sw "[]" 0] by simp
  have b0: "best_loss s0 = PInf"
    using s0 run_setup_init [of b self cw sw "[]" s0] by (simp add: state_after_Nil)
  from step_best [OF st] l b0 have some1: "best_img s1 \<noteq> None" by auto
  from state_after_defined [OF ok lc ls, of "py_range (iteration self)" cw sw] nz obtain s where
    s: "state_after b self cw sw (py_range (iteration self)) = Inr s" by auto
  have "run_loop b (real_of_int (iteration self) / real_of_int (2 * 5))
          (min_vals_of norm_means) (max_vals_of norm_means) s1 (map int [1..<nat (iteration self)])
        = Inr s"
    using s s1 state_after_append [of b self cw sw "[0]" "map int [1..<nat (iteration self)]"]
    by (simp add: py_range_pos [OF it])
  from run_loop_best_some [OF this some1] obtain img where "best_img s = Some img" by auto
  then show ?thesis using s by (simp add: run_eq)
qed

lemma run_loop_all_nan:
  assumes "\<And>pre i post s1. is = pre @ i # post \<Longrightarrow> run_loop b di lo hi s pre = Inr s1
             \<Longrightarrow> iteration_loss b s1 i = Inr NaN"
    and "run_loop b di lo hi s is = Inr s'"
  shows "best_img s' = best_img s \<and> best_loss s' = best_loss s"
  using assms
proof (induction "is" arbitrary: s)
  case Nil
  then show ?case by simp
next
  case (Cons i rest)
  from Cons.prems(2) obtain s1 where s1: "iteration_step b di lo hi s i = Inr s1"
    and r: "run_loop b di lo hi s1 rest = Inr s'"
    by (auto split: sum.splits)
  have "iteration_loss b s i = Inr NaN"
    using Cons.prems(1) [of "[]" i rest s] by simp
  with step_best [OF s1] have keep: "best_loss s1 = best_loss s \<and> best_img s1 = best_img s"
    by (auto split: if_splits)
  have "best_img s' = best_img s1 \<and> best_loss s' = best_loss s1"
  proof (rule Cons.IH [OF _ r])
    fix pre j post s2
    assume "rest = pre @ j # post" and "run_loop b di lo hi s1 pre = Inr s2"
    then show "iteration_loss b s2 j = Inr NaN"
      using Cons.prems(1) [of "i # pre" j post s2] s1 by simp
  qed
  with keep show ?case by simp
qed

lemma all_nan_none:
  assumes ok: "layers_ok b self"
    and lc: "load_succeeds b self (content_path self)"
    and ls: "load_succeeds b self (style_path self)"
    and nan: "\<forall>pre i post s. py_range (iteration self) = pre @ i # post
                 \<and> state_after b self cw sw pre = Inr s \<longrightarrow> iteration_loss b s i = Inr NaN"
  shows "fst (run_style_transfer b self cw sw []) = Inr None
     \<and> (\<exists>s. state_after b self cw sw (py_range (iteration self)) = Inr s)"
proof -
  have d: "py_range (iteration self) = [] \<or> iteration self \<noteq> 0" by (auto simp: py_range_def)
  from state_after_defined [OF ok lc ls d, of cw sw] obtain s where
    s: "state_after b self cw sw (py_range (iteration self)) = Inr s" by auto
  then obtain s0 where s0: "fst (run_setup b self cw sw []) = Inr s0"
    and r: "run_loop b (real_of_int (iteration self) / real_of_int (2 * 5))
            (min_vals_of norm_means) (max_vals_of norm_means) s0 (py_range (iteration self)) = Inr s"
    by (auto simp: state_after_def split: sum.splits)
  have "best_img s = best_img s0 \<and> best_loss s = best_loss s0"
  proof (rule run_loop_all_nan [OF _ r])
    fix pre i post s1
    assume p: "py_range (iteration self) = pre @ i # post"
      and "run_loop b (real_of_int (iteration self) / real_of_int (2 * 5))
            (min_vals_of norm_means) (max_vals_of norm_means) s0 pre = Inr s1"
    then have "state_after b self cw sw pre = Inr s1" using s0 by (simp add: state_after_def)
    with nan p show "iteration_loss b s1 i = Inr NaN" by blast
  qed
  then have "best_img s = None" using run_setup_init [OF s0] by simp
  then show ?thesis using s by (simp add: run_eq)
qed

text \<open>
  C10. For an iteration count of at least one, a usable network and two paths that
  load: if the total loss of the first iteration is a finite number, the run returns
  an image; and if the total loss of every iteration is NaN, the run completes all its
  iterations and returns \<open>None\<close>.
\<close>

theorem finite_first_loss_or_all_nan:
  assumes "layers_ok b self"
    and "load_succeeds b self (content_path self)"
    and "load_succeeds b self (style_path self)"
    and "1 \<le> iteration self"
  shows "(\<forall>s0 r. state_after b self content_weight style_weight [] = Inr s0
             \<and> iteration_loss b s0 0 = Inr (Fin r)
           \<longrightarrow> (\<exists>img. fst (run_style_transfer b self content_weight style_weight [])
                       = Inr (Some img)))
     \<and> ((\<forall>pre i post s. py_range (iteration self) = pre @ i # post
             \<and> state_after b self content_weight style_weight pre = Inr s
             \<longrightarrow> iteration_loss b s i = Inr NaN)
        \<longrightarrow> fst (run_style_transfer b self content_weight style_weight []) = Inr None
            \<and> (\<exists>s. state_after b self content_weight style_weight (py_range (iteration self))
                    = Inr s))"
  using first_finite_some [OF assms] all_nan_none [OF assms(1,2,3)] by blast

subsection \<open>Range of the variable\<close>

lemma nat_range:
  "n < 256 \<Longrightarrow> fl_le (Fin (- m)) (fl_sub (Fin (real n)) (Fin m))
   \<and> fl_le (fl_sub (Fin (real n)) (Fin m)) (Fin (255 - m))"
  by (simp add: fl_sub_def)

lemma pixel_range:
  "fl_le (Fin (- m)) (fl_sub (pixel_value p) (Fin m))
   \<and> fl_le (fl_sub (pixel_value p) (Fin m)) (Fin (255 - m))"
proof -
  have "unat p < 256" using unsigned_less [of p, where ?'a = nat] by simp
  then show ?thesis unfolding pixel_value_def by (rule nat_range)
qed

lemma valid_index4:
  assumes "valid_index [a, b, c, d] idx"
  obtains i j k l where "idx = [i, j, k, l]" "i < a" "j < b" "k < c" "l < d"
  using assms by (auto simp: valid_index_def list_all2_Cons2)

lemma load_elems:
  assumes "fst (load_and_process_img b self p w) = Inr t" and "valid_index (shape t) idx"
  shows "last idx < 3 \<and> (\<exists>q. elems t idx = fl_sub (pixel_value q) (Fin (norm_means ! last idx)))"
proof -
  from load_result [OF assms(1)] obtain img' where
    t: "preprocess_input (expand_dims0 (img_to_array img')) = Inr t" by blast
  have sh: "shape t = [1, height img', width img', 3]"
    using t unfolding preprocess_image_array by auto
  from assms(2) obtain i j k l where idx: "idx = [i, j, k, l]" and l: "l < 3"
    unfolding sh by (rule valid_index4)
  show ?thesis
    using t l unfolding preprocess_image_array by (auto simp: idx Let_def)
qed

lemma run_setup_candidate:
  assumes "fst (run_setup b self cw sw w) = Inr s0"
  shows "\<exists>ci w'. fst (load_and_process_img b self (content_path self) w') = Inr ci
     \<and> init_image (args s0) = ci\<lparr>dtype := Float32\<rparr>"
  using assms
  unfolding run_setup_def Let_def
  by (auto split: prod.splits sum.splits) (metis fst_conv)

lemma candidate_range:
  assumes "state_after b self cw sw done = Inr s"
    and "valid_index (shape (init_image (args s))) idx"
  shows "last idx < 3
     \<and> (elems (init_image (args s)) idx \<noteq> NaN \<longrightarrow>
          fl_le (Fin (- (norm_means ! last idx))) (elems (init_image (args s)) idx)
          \<and> fl_le (elems (init_image (args s)) idx) (Fin (255 - norm_means ! last idx)))
     \<and> (\<forall>pre i. done = pre @ [i] \<longrightarrow>
          (\<exists>s1. state_after b self cw sw pre = Inr s1
             \<and> elems (init_image (args s)) idx
                 = fl_clip (Fin (- (norm_means ! last idx))) (Fin (255 - norm_means ! last idx))
                     (snd (adam_step b (opt s1) (tape_gradient b (args s1))
                            (init_image (args s1))) idx)))"
proof (cases "done" rule: rev_cases)
  case Nil
  with assms(1) have "fst (run_setup b self cw sw []) = Inr s" by (simp add: state_after_Nil)
  from run_setup_candidate [OF this] obtain ci w' where
    ci: "fst (load_and_process_img b self (content_path self) w') = Inr ci"
    and x: "init_image (args s) = ci\<lparr>dtype := Float32\<rparr>" by blast
  have v: "valid_index (shape ci) idx" using assms(2) x by simp
  from load_elems [OF ci v] obtain q where l: "last idx < 3"
    and e: "elems ci idx = fl_sub (pixel_value q) (Fin (norm_means ! last idx))" by blast
  show ?thesis using l e pixel_range [of "norm_means ! last idx" q] Nil by (simp add: x)
next
  case (snoc pre i)
  with assms(1) obtain s1 where s1: "state_after b self cw sw pre = Inr s1"
    and st: "iteration_step b (real_of_int (iteration self) / real_of_int (2 * 5))
                   (min_vals_of norm_means) (max_vals_of norm_means) s1 i = Inr s"
    by (auto simp: state_after_snoc split: sum.splits)
  from iteration_step_Inr [OF st] obtain opt' vals clipped where
    ad: "adam_step b (opt s1) (tape_gradient b (args s1)) (init_image (args s1)) = (opt', vals)"
    and cl: "clip_by_value ((init_image (args s1))\<lparr>elems := vals\<rparr>) (min_vals_of norm_means)
               (max_vals_of norm_means) = Inr clipped"
    and sc: "shape clipped = shape (init_image (args s1))"
    and a: "args s = (args s1)\<lparr>init_image := clipped\<lparr>dtype := Float32\<rparr>\<rparr>"
    by blast
  have sc': "shape clipped = shape ((init_image (args s1))\<lparr>elems := vals\<rparr>)" using sc by simp
  have v: "valid_index (shape ((init_image (args s1))\<lparr>elems := vals\<rparr>)) idx"
    using assms(2) a sc by simp
  from clip_by_value_means [OF cl sc'] v have l: "last idx < 3"
    and e: "elems clipped idx
        = fl_clip (Fin (- (norm_means ! last idx))) (Fin (255 - norm_means ! last idx)) (vals idx)"
    by auto
  have ex: "elems (init_image (args s)) idx
        = fl_clip (Fin (- (norm_means ! last idx))) (Fin (255 - norm_means ! last idx))
            (snd (adam_step b (opt s1) (tape_gradient b (args s1)) (init_image (args s1))) idx)"
    using e by (simp add: a ad)
  have rng: "elems (init_image (args s)) idx \<noteq> NaN \<longrightarrow>
          fl_le (Fin (- (norm_means ! last idx))) (elems (init_image (args s)) idx)
          \<and> fl_le (elems (init_image (args s)) idx) (Fin (255 - norm_means ! last idx))"
    unfolding ex using fl_clip_range [OF norm_means_range [OF l]] fl_clip_nan by metis
  show ?thesis using l rng ex s1 snoc by blast
qed

text \<open>
  C4, as amended. In the state reached after any number of iterations of a run, every
  element of the variable belongs to one of the three channels, and, unless it is NaN,
  lies between \<open>- mean\<close> and \<open>255 - mean\<close> for the mean of its channel. After an
  iteration the element is the value that the update of the optimizer produced, clipped
  to that interval; the clip leaves a NaN as it is.
\<close>

theorem candidate_clipped_after_update:
  assumes "state_after b self content_weight style_weight done = Inr s"
    and "valid_index (shape (init_image (args s))) idx"
  shows "last idx < 3
     \<and> (elems (init_image (args s)) idx \<noteq> NaN \<longrightarrow>
          fl_le (Fin (- (norm_means ! last idx))) (elems (init_image (args s)) idx)
          \<and> fl_le (elems (init_image (args s)) idx) (Fin (255 - norm_means ! last idx)))
     \<and> (\<forall>pre i. done = pre @ [i] \<longrightarrow>
          (\<exists>s1. state_after b self content_weight style_weight pre = Inr s1
             \<and> elems (init_image (args s)) idx
                 = fl_clip (Fin (- (norm_means ! last idx))) (Fin (255 - norm_means ! last idx))
                     (snd (adam_step b (opt s1) (tape_gradient b (args s1))
                            (init_image (args s1))) idx)))"
  using assms by (rule candidate_range)

subsection \<open>Square images\<close>

lemma py_round_scale:
  assumes "0 < n"
  shows "py_round (real n * (real_of_int m / real n)) = m"
proof -
  have "real n * (real_of_int m / real n) = real_of_int m" using assms by simp
  then show ?thesis by simp
qed

lemma load_square:
  assumes f: "files b p = Some img"
    and w: "width img = n" and h: "height img = n" and n: "0 < n"
    and m: "1 \<le> max_dim self"
  shows "\<exists>t. fst (load_and_process_img b self p opened) = Inr t
     \<and> shape t = [1, nat (max_dim self), nat (max_dim self), 3]"
proof -
  have mx: "max (width img) (height img) = n" using w h by simp
  have r: "\<exists>img'. resize b img (max_dim self, max_dim self) = Inr img'
      \<and> width img' = nat (max_dim self) \<and> height img' = nat (max_dim self)"
    using m w h by (auto simp: resize_def)
  then obtain img' where r1: "resize b img (max_dim self, max_dim self) = Inr img'"
    and wh: "width img' = nat (max_dim self)" "height img' = nat (max_dim self)" by blast
  have "fst (load_and_process_img b self p opened)
      = preprocess_input (expand_dims0 (img_to_array img'))"
    unfolding load_and_process_img_def f option.case fst_conv Let_def mx w h
      py_round_scale [OF n]
    using n r1 by simp
  then show ?thesis unfolding preprocess_image_array by (simp add: wh)
qed

lemma load_succeedsI:
  "fst (load_and_process_img b self p w) = Inr t \<Longrightarrow> load_succeeds b self p"
  using load_fst_indep [of b self p w "[]"] by (simp add: load_succeeds_def)

lemma step_best_shape:
  assumes wf: "wf_state b self H W s"
    and st: "iteration_step b di lo hi s i = Inr s'"
    and p: "\<forall>y. best_img s = Some y \<longrightarrow> shape y = [H, W, 3] \<and> dtype y = UInt8"
  shows "\<forall>y. best_img s' = Some y \<longrightarrow> shape y = [H, W, 3] \<and> dtype y = UInt8"
proof -
  from iteration_step_Inr [OF st] obtain loss clipped where
    sc: "shape clipped = shape (init_image (args s))"
    and c: "if fl_less loss (best_loss s)
        then best_loss s' = loss
           \<and> (\<exists>img. deprocess_img (clipped\<lparr>dtype := Float32\<rparr>) = Inr img \<and> best_img s' = Some img)
        else best_loss s' = best_loss s \<and> best_img s' = best_img s"
    by blast
  have "shape (clipped\<lparr>dtype := Float32\<rparr>) = [1, H, W, 3]"
    using sc wf by (simp add: wf_state_def)
  from deprocess_ok [OF this] obtain y where
    y: "deprocess_img (clipped\<lparr>dtype := Float32\<rparr>) = Inr y" "shape y = [H, W, 3]" "dtype y = UInt8"
    by blast
  show ?thesis
  proof (cases "fl_less loss (best_loss s)")
    case True
    then show ?thesis using c y by auto
  next
    case False
    then show ?thesis using c p by simp
  qed
qed

lemma run_loop_best_shape:
  "wf_state b self H W s \<Longrightarrow> run_loop b di lo hi s is = Inr s'
   \<Longrightarrow> \<forall>y. best_img s = Some y \<longrightarrow> shape y = [H, W, 3] \<and> dtype y = UInt8
   \<Longrightarrow> \<forall>y. best_img s' = Some y \<longrightarrow> shape y = [H, W, 3] \<and> dtype y = UInt8"
proof (induction "is" arbitrary: s)
  case Nil
  then show ?case by simp
next
  case (Cons i rest)
  from Cons.prems(2) obtain s1 where s1: "iteration_step b di lo hi s i = Inr s1"
    and r: "run_loop b di lo hi s1 rest = Inr s'"
    by (auto split: sum.splits)
  have wf1: "wf_state b self H W s1" by (rule step_wf [OF Cons.prems(1) s1])
  show ?case
    by (rule Cons.IH [OF wf1 r step_best_shape [OF Cons.prems(1) s1 Cons.prems(3)]])
qed

lemma run_result_shape:
  assumes ok: "layers_ok b self"
    and lc: "fst (load_and_process_img b self (content_path self) []) = Inr ci"
    and sh: "shape ci = [1, H, W, 3]"
    and ls: "load_succeeds b self (style_path self)"
  shows "\<exists>r. fst (run_style_transfer b self cw sw []) = Inr r
     \<and> (\<forall>y. r = Some y \<longrightarrow> shape y = [H, W, 3] \<and> dtype y = UInt8)"
proof -
  from load_succeedsD [OF ls] obtain si where
    si: "fst (load_and_process_img b self (style_path self) []) = Inr si" by blast
  from run_setup_ok [OF ok lc si, of cw sw "[]"] sh obtain s0 where
    rs: "fst (run_setup b self cw sw []) = Inr s0" and wf: "wf_state b self H W s0"
    and bi: "best_img s0 = None"
    by auto
  have d: "py_range (iteration self) = [] \<or> iteration self \<noteq> 0" by (auto simp: py_range_def)
  from state_after_defined [OF ok load_succeedsI [OF lc] ls d, of cw sw] obtain s where
    s: "state_after b self cw sw (py_range (iteration self)) = Inr s" by auto
  then have r: "run_loop b (real_of_int (iteration self) / real_of_int (2 * 5))
            (min_vals_of norm_means) (max_vals_of norm_means) s0 (py_range (iteration self)) = Inr s"
    using rs by (simp add: state_after_def)
  have "\<forall>y. best_img s = Some y \<longrightarrow> shape y = [H, W, 3] \<and> dtype y = UInt8"
    by (rule run_loop_best_shape [OF wf r]) (simp add: bi)
  then show ?thesis using s by (simp add: run_eq)
qed


subsection \<open>The example run\<close>

lemma py_round_numeral [simp]: "py_round (numeral k) = numeral k"
  using py_round_of_int [of "numeral k"] by simp

lemma example_layers_ok: "layers_ok example_env (example_converter iter md)"
  by (simp add: layers_ok_def example_env_def example_converter_def ImageConverter_def)

lemma example_paths:
  "content_path (example_converter iter md) = ''content.png''"
  "style_path (example_converter iter md) = ''style.png''"
  "iteration (example_converter iter md) = iter"
  "max_dim (example_converter iter md) = md"
  by (simp_all add: example_converter_def ImageConverter_def)

lemma example_files:
  "files example_env ''content.png'' = Some solid_image"
  "files example_env ''style.png'' = Some checkerboard_image"
  by (simp_all add: example_env_def)

lemma example_sizes:
  "width solid_image = 64" "height solid_image = 64"
  "width checkerboard_image = 64" "height checkerboard_image = 64"
  by (simp_all add: solid_image_def checkerboard_image_def)

lemma example_load_content:
  assumes "1 \<le> md"
  shows "\<exists>t. fst (load_and_process_img example_env (example_converter iter md) ''content.png'' [])
           = Inr t \<and> shape t = [1, nat md, nat md, 3]"
  using load_square [of example_env "''content.png''" solid_image 64 "example_converter iter md" "[]"]
    assms
  by (simp add: example_files example_sizes example_paths)

lemma example_load_style:
  assumes "1 \<le> md"
  shows "\<exists>t. fst (load_and_process_img example_env (example_converter iter md) ''style.png'' [])
           = Inr t \<and> shape t = [1, nat md, nat md, 3]"
  using load_square [of example_env "''style.png''" checkerboard_image 64
      "example_converter iter md" "[]"] assms
  by (simp add: example_files example_sizes example_paths)

lemma example_loads:
  assumes "1 \<le> md"
  shows "load_succeeds example_env (example_converter iter md)
           (content_path (example_converter iter md))"
    and "load_succeeds example_env (example_converter iter md)
           (style_path (example_converter iter md))"
  using example_load_content [OF assms, of iter] example_load_style [OF assms, of iter]
    load_succeedsI
  unfolding example_paths by blast+

lemma indices_11: "indices [Suc 0, Suc 0] = [[0, 0]]"
  by (simp add: indices.simps)

lemma indices_111: "indices [Suc 0, Suc 0, Suc 0] = [[0, 0, 0]]"
  by (simp add: indices.simps)

lemma example_first_loss_64:
  "\<exists>s0. state_after example_env (example_converter iter 64) (Fin 1000) (Fin (1 / 100)) [] = Inr s0
     \<and> iteration_loss example_env s0 0 = Inr (Fin (1847345807241 / 1000000))"
  apply (simp add: state_after_def run_setup_def run_gradient_descent_def)
  apply (simp add: load_and_process_img_def example_env_def example_converter_def ImageConverter_def
      solid_image_def checkerboard_image_def resize_def Let_def preprocess_image_array
      get_model_def layer_output_def index0_def gram_matrix_def indices_11 fl_sum_def)
  apply (simp add: iteration_loss_def compute_grads_def compute_loss_def get_model_def layer_output_def
      index0_def style_loss_def content_loss_def gram_matrix_def indices_11 fl_sum_def Let_def
      tf_sub_def broadcast_shapes_same reduce_mean_def tf_square_def bidx_def fl_square_def fl_sub_def
      norm_means_def pixel_value_def indices_111)
  done


lemma fl_mul_NaN_right [simp]: "fl_mul a NaN = NaN"
  by (cases a) auto

lemma compute_loss_nan:
  "compute_loss self m (NaN, cw) x g c = Inr (l, ss, cs) \<Longrightarrow> l = NaN"
  by (auto simp: compute_loss_def Let_def split: sum.splits if_splits)

lemma run_setup_weights:
  assumes "fst (run_setup b self cw sw w) = Inr s0"
  shows "loss_weights (args s0) = (sw, cw)"
  using assms
  by (auto simp: run_setup_def Let_def split: prod.splits sum.splits)

lemma run_loop_weights:
  "run_loop b di lo hi s is = Inr s' \<Longrightarrow> loss_weights (args s') = loss_weights (args s)"
proof (induction "is" arbitrary: s)
  case Nil
  then show ?case by simp
next
  case (Cons i rest)
  from Cons.prems obtain s1 where s1: "iteration_step b di lo hi s i = Inr s1"
    and r: "run_loop b di lo hi s1 rest = Inr s'"
    by (auto split: sum.splits)
  from iteration_step_Inr [OF s1] have "loss_weights (args s1) = loss_weights (args s)" by auto
  with Cons.IH [OF r] show ?case by simp
qed

lemma state_after_weights:
  assumes "state_after b self cw sw done = Inr s"
  shows "loss_weights (args s) = (sw, cw)"
proof -
  from assms obtain s0 where s0: "fst (run_setup b self cw sw []) = Inr s0"
    and r: "run_loop b (real_of_int (iteration self) / real_of_int (2 * 5))
            (min_vals_of norm_means) (max_vals_of norm_means) s0 done = Inr s"
    by (auto simp: state_after_def split: sum.splits)
  show ?thesis using run_loop_weights [OF r] run_setup_weights [OF s0] by simp
qed

lemma nan_weight_losses:
  assumes ok: "layers_ok b self"
    and lc: "load_succeeds b self (content_path self)"
    and ls: "load_succeeds b self (style_path self)"
    and it: "iteration self \<noteq> 0"
    and s: "state_after b self cw NaN done = Inr s"
  shows "iteration_loss b s i = Inr NaN"
proof -
  from state_after_defined [OF ok lc ls, of "done @ [i]" cw NaN] it obtain s' where
    "state_after b self cw NaN (done @ [i]) = Inr s'" by auto
  then have st: "iteration_step b (real_of_int (iteration self) / real_of_int (2 * 5))
                   (min_vals_of norm_means) (max_vals_of norm_means) s i = Inr s'"
    using s by (simp add: state_after_snoc)
  from iteration_step_Inr [OF st] obtain loss ss cs where
    cg: "compute_grads b ((self_obj s)\<lparr>cur_iter := i\<rparr>) (args s)
        = Inr (tape_gradient b (args s), loss, ss, cs)" by blast
  have w: "loss_weights (args s) = (NaN, cw)" by (rule state_after_weights [OF s])
  have "loss = NaN"
    using cg compute_loss_nan unfolding compute_grads_def w
    by (auto split: sum.splits)
  then show ?thesis using cg by (simp add: iteration_loss_def)
qed



lemma example_run_returns:
  "\<exists>r. fst (run_style_transfer example_env (example_converter 5 64) (Fin 1000) (Fin (1 / 100)) [])
        = Inr r"
proof -
  let ?self = "example_converter 5 64"
  from example_load_content [of 64 5] obtain ci where
    ci: "fst (load_and_process_img example_env ?self (content_path ?self) []) = Inr ci"
    and sh: "shape ci = [1, 64, 64, 3]" by (auto simp: example_paths)
  have ls: "load_succeeds example_env ?self (style_path ?self)"
    using example_loads [of 64 5] by simp
  from run_result_shape [OF example_layers_ok ci sh ls, of "Fin 1000" "Fin (1 / 100)"]
  show ?thesis by blast
qed

text \<open>
  C2, an instance: the paths opened by the run of the example.
\<close>

theorem paths_opened_by_run_witness:
  "snd (run_style_transfer example_env (example_converter 5 64) (Fin 1000) (Fin (1 / 100)) [])
   = [''content.png'', ''style.png'', ''content.png'']"
proof -
  from example_run_returns obtain r where
    "fst (run_style_transfer example_env (example_converter 5 64) (Fin 1000) (Fin (1 / 100)) [])
        = Inr r" by blast
  from paths_opened_by_run [OF this] show ?thesis by (simp add: example_paths)
qed

text \<open>
  C2 as stated fails: the run of the example opens the content path twice, not once.
\<close>

theorem content_opened_twice_counterexample:
  "count_list
     (snd (run_style_transfer example_env (example_converter 5 64) (Fin 1000) (Fin (1 / 100)) []))
     ''content.png'' = 2"
proof -
  from example_run_returns obtain r where
    "fst (run_style_transfer example_env (example_converter 5 64) (Fin 1000) (Fin (1 / 100)) [])
        = Inr r" by blast
  from run_opened [OF this] show ?thesis by (simp add: example_paths)
qed

text \<open>
  C3, an instance: the first iteration of the example lowers the best loss from plus
  infinity to its total loss and stores an image.
\<close>

theorem best_loss_non_increasing_witness:
  "\<exists>s s'. state_after example_env (example_converter 5 64) (Fin 1000) (Fin (1 / 100)) [] = Inr s
     \<and> state_after example_env (example_converter 5 64) (Fin 1000) (Fin (1 / 100)) [0] = Inr s'
     \<and> best_loss s = PInf \<and> best_img s = None
     \<and> fl_le (best_loss s') (best_loss s)
     \<and> best_loss s' = Fin (1847345807241 / 1000000) \<and> (\<exists>img. best_img s' = Some img)"
proof -
  let ?self = "example_converter 5 64"
  have lc: "load_succeeds example_env ?self (content_path ?self)"
    and ls: "load_succeeds example_env ?self (style_path ?self)"
    using example_loads [of 64 5] by simp_all
  have "[0] = [] \<or> iteration ?self \<noteq> 0" by (simp add: example_paths)
  from state_after_defined [OF example_layers_ok lc ls this, of "Fin 1000" "Fin (1 / 100)"]
  obtain s' where s': "state_after example_env ?self (Fin 1000) (Fin (1 / 100)) [0] = Inr s'"
    by auto
  from example_first_loss_64 [of 5] obtain s0 where
    s0: "state_after example_env ?self (Fin 1000) (Fin (1 / 100)) [] = Inr s0"
    and l: "iteration_loss example_env s0 0 = Inr (Fin (1847345807241 / 1000000))" by blast
  show ?thesis
    using best_loss_non_increasing [of example_env ?self "Fin 1000" "Fin (1 / 100)" "[]" 0]
      s' s0 l
    by auto
qed

text \<open>
  C9, an instance: the example with no iteration.
\<close>

theorem zero_iterations_return_none_witness:
  "fst (run_style_transfer example_env (example_converter 0 64) (Fin 1000) (Fin (1 / 100)) [])
   = Inr None"
  using zero_iterations_return_none [OF example_layers_ok example_loads [of 64 0]]
  by (simp add: example_paths)

text \<open>
  C10, an instance: the example returns an image; with a style weight of NaN every
  total loss is NaN and it returns \<open>None\<close>.
\<close>

theorem finite_first_loss_or_all_nan_witness:
  "(\<exists>img. fst (run_style_transfer example_env (example_converter 5 64) (Fin 1000) (Fin (1 / 100)) [])
           = Inr (Some img))
   \<and> fst (run_style_transfer example_env (example_converter 5 64) (Fin 1000) NaN []) = Inr None"
proof -
  let ?self = "example_converter 5 64"
  have lc: "load_succeeds example_env ?self (content_path ?self)"
    and ls: "load_succeeds example_env ?self (style_path ?self)"
    using example_loads [of 64 5] by simp_all
  have it: "1 \<le> iteration ?self" and nz: "iteration ?self \<noteq> 0" by (simp_all add: example_paths)
  from example_first_loss_64 [of 5] obtain s0 where
    s0: "state_after example_env ?self (Fin 1000) (Fin (1 / 100)) [] = Inr s0"
    and l: "iteration_loss example_env s0 0 = Inr (Fin (1847345807241 / 1000000))" by blast
  have a: "\<exists>img. fst (run_style_transfer example_env ?self (Fin 1000) (Fin (1 / 100)) [])
           = Inr (Some img)"
    using finite_first_loss_or_all_nan [OF example_layers_ok lc ls it, of "Fin 1000" "Fin (1 / 100)"]
      s0 l by blast
  have nan: "\<forall>pre i post s. py_range (iteration ?self) = pre @ i # post
             \<and> state_after example_env ?self (Fin 1000) NaN pre = Inr s
             \<longrightarrow> iteration_loss example_env s i = Inr NaN"
    using nan_weight_losses [OF example_layers_ok lc ls nz] by blast
  have b: "fst (run_style_transfer example_env ?self (Fin 1000) NaN []) = Inr None"
    using finite_first_loss_or_all_nan [OF example_layers_ok lc ls it, of "Fin 1000" NaN] nan
    by blast
  show ?thesis using a b by blast
qed

lemma example_initial:
  "\<exists>s0. state_after example_env (example_converter iter 64) cw sw [] = Inr s0
     \<and> elems (init_image (args s0)) [0, 0, 0, 0] = Fin (96061 / 1000)
     \<and> shape (init_image (args s0)) = [1, 64, 64, 3]"
  apply (simp add: state_after_def run_setup_def run_gradient_descent_def)
  apply (simp add: load_and_process_img_def example_env_def example_converter_def ImageConverter_def
      solid_image_def checkerboard_image_def resize_def Let_def preprocess_image_array
      get_model_def layer_output_def index0_def gram_matrix_def indices_11 fl_sum_def)
  apply (simp add: norm_means_def pixel_value_def fl_sub_def)
  done

lemma example_after_first:
  "\<exists>s. state_after example_env (example_converter 5 64) cw sw [0] = Inr s
     \<and> valid_index (shape (init_image (args s))) [0, 0, 0, 0]"
proof -
  let ?self = "example_converter 5 64"
  have lc: "load_succeeds example_env ?self (content_path ?self)"
    and ls: "load_succeeds example_env ?self (style_path ?self)"
    using example_loads [of 64 5] by simp_all
  have "[0] = [] \<or> iteration ?self \<noteq> 0" by (simp add: example_paths)
  from state_after_defined [OF example_layers_ok lc ls this, of cw sw]
  obtain s ci H W where s: "state_after example_env ?self cw sw [0] = Inr s"
    and wf: "wf_state example_env ?self H W s"
    and ci: "fst (load_and_process_img example_env ?self (content_path ?self) []) = Inr ci"
    and sh: "shape ci = [1, H, W, 3]" by blast
  from example_load_content [of 64 5] ci have "shape ci = [1, 64, 64, 3]"
    by (auto simp: example_paths)
  with sh have "H = 64" "W = 64" by simp_all
  then have "shape (init_image (args s)) = [1, 64, 64, 3]" using wf by (simp add: wf_state_def)
  then show ?thesis using s by (simp add: valid_index_def)
qed

lemma fl_add_NaN_right [simp]: "fl_add a NaN = NaN"
  by (cases a) auto

lemma example_adam:
  "snd (adam_step example_env st (tape_gradient example_env a) x) idx
     = fl_sub (elems x idx) (fl_mul (Fin 5) (fl_add (fst (loss_weights a)) (snd (loss_weights a))))"
  by (simp add: example_env_def tape_gradient_def)

text \<open>
  C4, an instance: the first update of the example moves the first element of the
  variable far below the interval, and the clip puts it on the lower bound.
\<close>

theorem candidate_clipped_after_update_witness:
  "\<exists>s. state_after example_env (example_converter 5 64) (Fin 1000) (Fin (1 / 100)) [0] = Inr s
     \<and> elems (init_image (args s)) [0, 0, 0, 0] = Fin (- (103939 / 1000))
     \<and> fl_le (Fin (- (103939 / 1000))) (elems (init_image (args s)) [0, 0, 0, 0])
     \<and> fl_le (elems (init_image (args s)) [0, 0, 0, 0]) (Fin (255 - 103939 / 1000))"
proof -
  let ?self = "example_converter 5 64"
  from example_after_first [of "Fin 1000" "Fin (1 / 100)"] obtain s where
    s: "state_after example_env ?self (Fin 1000) (Fin (1 / 100)) [0] = Inr s"
    and v: "valid_index (shape (init_image (args s))) [0, 0, 0, 0]" by blast
  from example_initial [of 5 "Fin 1000" "Fin (1 / 100)"] obtain s0 where
    s0: "state_after example_env ?self (Fin 1000) (Fin (1 / 100)) [] = Inr s0"
    and e0: "elems (init_image (args s0)) [0, 0, 0, 0] = Fin (96061 / 1000)" by blast
  have w: "loss_weights (args s0) = (Fin (1 / 100), Fin 1000)"
    by (rule state_after_weights [OF s0])
  have "elems (init_image (args s)) [0, 0, 0, 0] = Fin (- (103939 / 1000))"
    using candidate_clipped_after_update [OF s v] s0
    by (auto simp: example_adam w e0 norm_means_def fl_sub_def fl_clip_def)
  then show ?thesis using s by simp
qed

text \<open>
  C4 as stated fails: with a style weight of NaN the gradient and the update are NaN,
  the clip keeps the NaN, and the first element of the variable is not within the
  interval after the first iteration.
\<close>

theorem candidate_nan_counterexample:
  "candidate_at (state_after example_env (example_converter 5 64) (Fin 1000) NaN [0]) [0, 0, 0, 0]
   = Inr NaN"
proof -
  let ?self = "example_converter 5 64"
  from example_after_first [of "Fin 1000" NaN] obtain s where
    s: "state_after example_env ?self (Fin 1000) NaN [0] = Inr s"
    and v: "valid_index (shape (init_image (args s))) [0, 0, 0, 0]" by blast
  from example_initial [of 5 "Fin 1000" NaN] obtain s0 where
    s0: "state_after example_env ?self (Fin 1000) NaN [] = Inr s0" by blast
  have w: "loss_weights (args s0) = (NaN, Fin 1000)"
    by (rule state_after_weights [OF s0])
  from candidate_range [OF s v] s0
  have "elems (init_image (args s)) [0, 0, 0, 0]
      = fl_clip (Fin (- (norm_means ! last [0, 0, 0, 0]))) (Fin (255 - norm_means ! last [0, 0, 0, 0]))
          (snd (adam_step example_env (opt s0) (tape_gradient example_env (args s0))
                 (init_image (args s0))) [0, 0, 0, 0])"
    by auto
  then have "elems (init_image (args s)) [0, 0, 0, 0] = NaN"
    unfolding example_adam w by (simp add: fl_sub_def fl_clip_def)
  then show ?thesis using s by (simp add: candidate_at_def)
qed



subsection \<open>Examples of the losses\<close>

text \<open>
  C6, an instance: five style losses of 64 and one content loss of 1, with the weights
  0.01 and 1000.
\<close>

theorem compute_loss_triple_witness:
  "compute_loss (example_converter 5 64) (get_model example_env (example_converter 5 64))
     (Fin (1 / 100), Fin 1000) (constant_array [1, 2, 2, 3] 3)
     (replicate 5 (constant_array [1, 1] 1)) [constant_array [1, 1, 1] 2]
   = Inr (Fin (100064 / 100), Fin (64 / 100), Fin 1000)"
proof -
  let ?self = "example_converter 5 64"
  let ?x = "constant_array [1, 2, 2, 3] 3"
  let ?outs = "map (\<lambda>name. layer_output example_env name ?x) (style_layers ?self)
            @ map (\<lambda>name. layer_output example_env name ?x) (content_layers ?self)"
  have m: "get_model example_env ?self ?x = Inr ?outs"
    by (rule get_model_ok [of _ 2 2]) (simp add: constant_array_def)
  have n: "num_style_layers ?self = 5" "num_content_layers ?self = 1"
    by (simp_all add: example_converter_def ImageConverter_def)
  have r5: "replicate 5 x = [x, x, x, x, x]" for x :: 'a
    by (simp add: numeral_eq_Suc)
  have sl: "style_layer_loss (constant_array [1, 1] 1, layer_output example_env name ?x)
      = Inr (Fin 64)" for name
    by (simp add: style_layer_loss_def index0_def layer_output_def example_env_def style_loss_def
        gram_matrix_def indices_11 fl_sum_def Let_def tf_sub_def broadcast_shapes_same
        reduce_mean_def tf_square_def bidx_def fl_square_def fl_sub_def constant_array_def)
  have cl: "content_layer_loss (constant_array [1, 1, 1] 2, layer_output example_env name ?x)
      = Inr (Fin 1)" for name
    by (simp add: content_layer_loss_def index0_def layer_output_def example_env_def
        content_loss_def indices_111 fl_sum_def Let_def tf_sub_def broadcast_shapes_same
        reduce_mean_def tf_square_def bidx_def fl_square_def fl_sub_def constant_array_def)
  have s: "map style_layer_loss
           (zip (replicate 5 (constant_array [1, 1] 1)) (take (num_style_layers ?self) ?outs))
         = map Inr (replicate 5 (Fin 64))"
    using sl by (simp add: n r5 example_converter_def ImageConverter_def)
  have c: "map content_layer_loss
           (zip [constant_array [1, 1, 1] 2] (drop (num_style_layers ?self) ?outs))
         = map Inr [Fin 1]"
    using cl by (simp add: n example_converter_def ImageConverter_def)
  have p: "0 < num_style_layers ?self" "0 < num_content_layers ?self"
    and lg: "length (replicate 5 (constant_array [1, 1] 1)) = num_style_layers ?self"
    and lc: "length [constant_array [1, 1, 1] 2] = num_content_layers ?self"
    and lo: "length ?outs = num_style_layers ?self + num_content_layers ?self"
    by (simp_all add: example_converter_def ImageConverter_def)
  note t = compute_loss_triple [where net = "get_model example_env ?self" and candidate = ?x
        and model_outputs = ?outs and self = ?self
        and target_grams = "replicate 5 (constant_array [1, 1] 1)"
        and target_contents = "[constant_array [1, 1, 1] 2]"
        and style_losses = "replicate 5 (Fin 64)" and content_losses = "[Fin 1]"
        and style_weight = "Fin (1 / 100)" and content_weight = "Fin 1000"]
  have "compute_loss ?self (get_model example_env ?self) (Fin (1 / 100), Fin 1000) ?x
          (replicate 5 (constant_array [1, 1] 1)) [constant_array [1, 1, 1] 2]
        = Inr (fl_add (fl_mul (fl_average (replicate 5 (Fin 64))) (Fin (1 / 100)))
                      (fl_mul (fl_average [Fin 1]) (Fin 1000)),
               fl_mul (fl_average (replicate 5 (Fin 64))) (Fin (1 / 100)),
               fl_mul (fl_average [Fin 1]) (Fin 1000))"
    using t [OF m p lg lc lo s c] by blast
  then show ?thesis by (simp add: fl_average_def fl_sum_def r5)
qed

lemma f32_round_one: "f32_round 1 = Fin 1"
  using f32_round_pow2 [of 0] by simp

lemma f32_round_keeps_pow2:
  "- 149 \<le> j \<Longrightarrow> j < 128 \<Longrightarrow> f32_round (2 powr real_of_int j) = Fin (2 powr real_of_int j)"
  by (simp add: f32_round_pow2)

lemma pow2_product: "(2::real) powr real_of_int j * 2 powr real_of_int j = 2 powr real_of_int (2 * j)"
  by (simp add: powr_add [symmetric])

lemma gram_entry_pow2:
  "f32_div (f32_sum [f32_mul (Fin (2 powr real_of_int j)) (Fin (2 powr real_of_int j))]) (f32_round 1)
   = (if 128 \<le> 2 * j then PInf else if - 149 \<le> 2 * j then Fin (2 powr real_of_int (2 * j)) else Fin 0)"
proof -
  have m: "f32_mul (Fin (2 powr real_of_int j)) (Fin (2 powr real_of_int j))
      = f32_round (2 powr real_of_int (2 * j))"
    unfolding f32_mul.simps pow2_product ..
  show ?thesis
  proof (cases "128 \<le> 2 * j")
    case True
    then have "f32_round (2 powr real_of_int (2 * j)) = PInf" by (simp only: f32_round_pow2 if_True)
    then show ?thesis unfolding m f32_sum_def f32_round_one using True by simp
  next
    case False
    show ?thesis
    proof (cases "- 149 \<le> 2 * j")
      case True
      have k: "f32_round (2 powr real_of_int (2 * j)) = Fin (2 powr real_of_int (2 * j))"
        using True False by (intro f32_round_keeps_pow2) simp_all
      have "f32_div (f32_add (Fin 0) (Fin (2 powr real_of_int (2 * j)))) (Fin 1)
          = Fin (2 powr real_of_int (2 * j))"
        using k by simp
      then show ?thesis unfolding m f32_sum_def f32_round_one k using True False by simp
    next
      case F: False
      then have "f32_round (2 powr real_of_int (2 * j)) = Fin 0"
        using False by (simp only: f32_round_pow2 if_False)
      then show ?thesis unfolding m f32_sum_def f32_round_one using F False by simp
    qed
  qed
qed

lemma gram_matrix_f32_pow2:
  assumes "0 < c"
  shows "gram_matrix_f32 (pow2_array [1, 1, c] j) =
     Inr \<lparr>shape = [c, c], dtype = Float32,
          elems = (\<lambda>idx. if 128 \<le> 2 * j then PInf
                          else if - 149 \<le> 2 * j then Fin (2 powr real_of_int (2 * j)) else Fin 0)\<rparr>"
  using assms
  by (simp add: gram_matrix_f32_def pow2_array_def indices_11 gram_entry_pow2 del: f32_mul.simps)

lemma all_finite_pow2: "all_finite (pow2_array sh j)"
  by (simp add: all_finite_def pow2_array_def list_all_iff)

lemma gram_matrix_f32_pow2_finite:
  assumes "0 < c" and "- 149 \<le> 2 * j" and "2 * j < 128"
  shows "gram_matrix_f32 (pow2_array [1, 1, c] j) = Inr (pow2_array [c, c] (2 * j))"
  using gram_matrix_f32_pow2 [OF assms(1), of j] assms(2,3) by (simp add: pow2_array_def)

lemma gram_matrix_f32_pow2_overflow:
  assumes "0 < c" and "128 \<le> 2 * j"
  shows "gram_matrix_f32 (pow2_array [1, 1, c] j)
       = Inr \<lparr>shape = [c, c], dtype = Float32, elems = (\<lambda>idx. PInf)\<rparr>"
  using gram_matrix_f32_pow2 [OF assms(1), of j] assms(2) by simp

lemma not_all_finite_inf:
  "\<not> all_finite \<lparr>shape = [Suc 0, Suc 0], dtype = Float32, elems = (\<lambda>idx. PInf)\<rparr>"
  by (simp add: all_finite_def indices_11)

lemma style_loss_f32_overflow:
  assumes "128 \<le> 2 * j"
  shows "map_sum id (style_loss_f32 (pow2_array [1, 1, 1] j)) (gram_matrix_f32 (pow2_array [1, 1, 1] j))
       = Inr (Inr NaN)"
proof -
  have g: "gram_matrix_f32 (pow2_array [1, 1, 1] j)
       = Inr \<lparr>shape = [1, 1], dtype = Float32, elems = (\<lambda>idx. PInf)\<rparr>"
    by (rule gram_matrix_f32_pow2_overflow [OF _ assms]) simp
  show ?thesis
    unfolding g using style_loss_f32_own_gram [OF g] not_all_finite_inf by simp
qed

lemma style_loss_f32_underflow:
  assumes "- 149 \<le> 2 * j" and "4 * j < - 150"
  shows "style_loss_f32 (pow2_array [1, 1, 1] j) (constant_array [1, 1] 0) = Inr (Fin 0)"
proof -
  have lt: "2 * j < 128" using assms by simp
  have g: "gram_matrix_f32 (pow2_array [1, 1, 1] j) = Inr (pow2_array [1, 1] (2 * j))"
    by (rule gram_matrix_f32_pow2_finite [OF _ assms(1) lt]) simp
  have sh: "shape (constant_array [1, 1] 0) = shape (pow2_array [1, 1] (2 * j))"
    by (simp add: constant_array_def pow2_array_def)
  have d: "f32_sub (Fin (2 powr real_of_int (2 * j))) (Fin 0) = Fin (2 powr real_of_int (2 * j))"
    using f32_round_keeps_pow2 [OF assms(1) lt] by (simp add: f32_sub_def)
  have p: "(2::real) powr real_of_int (2 * j) * 2 powr real_of_int (2 * j) = 2 powr real_of_int (4 * j)"
    using pow2_product [of "2 * j"] by simp
  have s: "f32_square (Fin (2 powr real_of_int (2 * j))) = Fin 0"
    unfolding f32_square_def f32_mul.simps p using assms(2) by (simp only: f32_round_pow2) simp
  show ?thesis
    unfolding style_loss_f32_eq [OF g sh] using d s
    by (simp add: pow2_array_def constant_array_def indices_11 f32_sum_def f32_round_one)
qed

lemma nd_eq_zero_pow2: "\<not> nd_eq (constant_array [1, 1] 0) (pow2_array [1, 1] k)"
  by (simp add: nd_eq_def constant_array_def pow2_array_def indices_11)

text \<open>
  C7, an instance: a tensor of one position and two channels whose elements are 2; its
  Gram matrix has the entries 4, and the style loss against it is zero.
\<close>

theorem style_loss_zero_for_finite_gram_witness:
  "gram_matrix_f32 (pow2_array [1, 1, 2] 1) = Inr (pow2_array [2, 2] 2)
   \<and> all_finite (pow2_array [2, 2] 2)
   \<and> style_loss_f32 (pow2_array [1, 1, 2] 1) (pow2_array [2, 2] 2) = Inr (Fin 0)"
proof -
  let ?base = "pow2_array [1, 1, 2] 1"
  let ?t = "pow2_array [2, 2] 2"
  have s: "shape ?base \<noteq> []" and c: "0 < last (shape ?base)"
    by (simp_all add: pow2_array_def)
  have g: "gram_matrix_f32 ?base = Inr ?t"
    using gram_matrix_f32_pow2_finite [of 2 1] by simp
  have f: "all_finite ?t" by (rule all_finite_pow2)
  have e: "nd_eq ?t ?t" by (rule nd_eq_refl)
  from style_loss_zero_for_finite_gram [OF s c, of ?t] g f e
  have "style_loss_f32 ?base ?t = Inr (Fin 0)" by auto
  with g f show ?thesis by simp
qed

text \<open>
  C7 as stated fails. The tensor whose only element is \<open>2 ^ 100\<close> is finite, its Gram
  matrix overflows to infinity, and the style loss against its own Gram matrix is NaN.
  The tensor whose only element is \<open>2 ^ -50\<close> has the Gram matrix \<open>2 ^ -100\<close>; against
  the target 0 the square of the difference underflows, and the style loss is zero
  although the Gram matrix is not the target.
\<close>

theorem style_loss_overflow_underflow_counterexample:
  "map_sum id (style_loss_f32 (pow2_array [1, 1, 1] 100)) (gram_matrix_f32 (pow2_array [1, 1, 1] 100))
     = Inr (Inr NaN)
   \<and> style_loss_f32 (pow2_array [1, 1, 1] (- 50)) (constant_array [1, 1] 0) = Inr (Fin 0)
   \<and> map_sum id (nd_eq (constant_array [1, 1] 0)) (gram_matrix_f32 (pow2_array [1, 1, 1] (- 50)))
     = Inr False"
proof -
  have a: "map_sum id (style_loss_f32 (pow2_array [1, 1, 1] 100))
             (gram_matrix_f32 (pow2_array [1, 1, 1] 100)) = Inr (Inr NaN)"
    by (rule style_loss_f32_overflow) simp
  have b: "style_loss_f32 (pow2_array [1, 1, 1] (- 50)) (constant_array [1, 1] 0) = Inr (Fin 0)"
    by (rule style_loss_f32_underflow) simp_all
  have g: "gram_matrix_f32 (pow2_array [1, 1, 1] (- 50)) = Inr (pow2_array [1, 1] (2 * (- 50)))"
    by (rule gram_matrix_f32_pow2_finite) simp_all
  have c: "map_sum id (nd_eq (constant_array [1, 1] 0)) (gram_matrix_f32 (pow2_array [1, 1, 1] (- 50)))
     = Inr False"
    unfolding g using nd_eq_zero_pow2 [of "2 * (- 50)"] by simp
  show ?thesis using a b c by (intro conjI)
qed

end
